theory Spec2Isabelle
  imports Complex_Main "HOL-Library.Log_Nat"
begin

section \<open>JavaScript values and strings\<close>

text \<open>
  The claim records handled by the dashboard are plain JavaScript objects whose fields hold
  scalars. A field value is one of the scalar kinds below; an object is a finite map from
  property names to values, and reading a property that is not there gives
  \<open>undefined\<close>. A JavaScript string is a sequence of code units and \<open>length\<close>
  counts them; the model takes \<^typ>\<open>char\<close> for the code unit. The numbers of the
  model are the integers, which \<open>String\<close> prints in decimal.
\<close>

datatype jsval = JUndefined | JNull | JBool bool | JNum int | JStr string

type_synonym obj = "string \<rightharpoonup> jsval"

definition js_get :: "obj \<Rightarrow> string \<Rightarrow> jsval" where
  "js_get c k = (case c k of None \<Rightarrow> JUndefined | Some v \<Rightarrow> v)"

text \<open>Truthiness, as tested by \<open>!v\<close>, \<open>v && e\<close> and \<open>v || e\<close>.\<close>

fun truthy :: "jsval \<Rightarrow> bool" where
  "truthy JUndefined = False"
| "truthy JNull = False"
| "truthy (JBool b) = b"
| "truthy (JNum n) = (n \<noteq> 0)"
| "truthy (JStr s) = (s \<noteq> [])"

definition js_or :: "jsval \<Rightarrow> jsval \<Rightarrow> jsval" where
  "js_or a b = (if truthy a then a else b)"

text \<open>Decimal rendering of a number inside a template literal or by \<open>String(v)\<close>.\<close>

fun string_of_nat :: "nat \<Rightarrow> string" where
  "string_of_nat n =
     (if n < 10 then [''0123456789'' ! n]
      else string_of_nat (n div 10) @ [''0123456789'' ! (n mod 10)])"

declare string_of_nat.simps [simp del]

definition string_of_int :: "int \<Rightarrow> string" where
  "string_of_int i = (if i < 0 then CHR ''-'' # string_of_nat (nat (- i)) else string_of_nat (nat i))"

fun to_string :: "jsval \<Rightarrow> string" where
  "to_string JUndefined = ''undefined''"
| "to_string JNull = ''null''"
| "to_string (JBool b) = (if b then ''true'' else ''false'')"
| "to_string (JNum n) = string_of_int n"
| "to_string (JStr s) = s"

text \<open>\<open>xs.join(sep)\<close> on an array of strings.\<close>

fun join :: "string \<Rightarrow> string list \<Rightarrow> string" where
  "join sep [] = []"
| "join sep [x] = x"
| "join sep (x # y # ys) = x @ sep @ join sep (y # ys)"

text \<open>
  \<open>s.trim()\<close> removes white space at both ends, so \<open>s.trim() === ''\<close> holds exactly
  when every code unit of \<open>s\<close> is white space. In the range of \<^typ>\<open>char\<close> the white
  space and line terminator code units are 9 to 13, 32 and 160.
\<close>

definition is_space :: "char \<Rightarrow> bool" where
  "is_space ch = (of_char ch \<in> {9, 10, 11, 12, 13, 32, 160 :: nat})"

definition trim_is_empty :: "string \<Rightarrow> bool" where
  "trim_is_empty s = list_all is_space s"

subsection \<open>Numbers in arithmetic\<close>

text \<open>
  JavaScript computes with binary64 numbers. A finite one is written here as the rational
  it is, and every quotient and product is rounded to the nearest binary64 number, a tie
  going to the even significand. Overflow to infinity is left out: the values rounded in
  this development are percentages. Where the sources divide, the divisor is the length of
  a list that is not empty.

  \<open>binade x\<close> is the exponent \<open>e\<close> with \<open>2 powi e \<le> x < 2 powi (e + 1)\<close> for a
  positive \<open>x\<close>, found from the bit lengths of numerator and denominator.
\<close>

definition binade :: "rat \<Rightarrow> int" where
  "binade x =
     (case quotient_of x of
        (p, q) \<Rightarrow> if 2 powi (bitlen p - bitlen q) \<le> x then bitlen p - bitlen q
                  else bitlen p - bitlen q - 1)"

definition round_half_even :: "rat \<Rightarrow> int" where
  "round_half_even y =
     (if y - of_int \<lfloor>y\<rfloor> < 1 / 2 then \<lfloor>y\<rfloor>
      else if 1 / 2 < y - of_int \<lfloor>y\<rfloor> then \<lfloor>y\<rfloor> + 1
      else if even \<lfloor>y\<rfloor> then \<lfloor>y\<rfloor> else \<lfloor>y\<rfloor> + 1)"

text \<open>
  The spacing of the binary64 numbers around \<open>x\<close>: the significand has 53 bits, and the
  least spacing, among the subnormal numbers, is \<open>2 powi (- 1074)\<close>.
\<close>

definition ulp :: "rat \<Rightarrow> rat" where
  "ulp x = 2 powi (max (binade \<bar>x\<bar> - 52) (- 1074))"

definition to_double :: "rat \<Rightarrow> rat" where
  "to_double x =
     (if x = 0 then 0
      else sgn x * of_int (round_half_even (\<bar>x\<bar> / ulp x)) * ulp x)"

text \<open>The operators \<open>/\<close> and \<open>*\<close> on two binary64 numbers.\<close>

definition js_divide :: "rat \<Rightarrow> rat \<Rightarrow> rat" where
  "js_divide x y = to_double (x / y)"

definition js_times :: "rat \<Rightarrow> rat \<Rightarrow> rat" where
  "js_times x y = to_double (x * y)"

text \<open>
  \<open>Math.round\<close>: the nearest integer, a tie going up. It is exact on a binary64 number,
  and so is the integer it returns.
\<close>

definition math_round :: "rat \<Rightarrow> int" where
  "math_round x = \<lfloor>x + 1 / 2\<rfloor>"

section \<open>The claims store\<close>

subsection \<open>Derived statistics\<close>

text \<open>
  \<open>calculateStats\<close> of the store provider. Each count compares the \<open>decision\<close>
  property of an entry with a literal; the rate is \<open>(approved / total) * 100\<close>, rounded
  to two decimals by \<open>Math.round(rate * 100) / 100\<close>. The literal \<open>2.3\<close> is the
  binary64 number nearest to 23 / 10.
\<close>

record statistics =
  totalClaims :: nat
  approvedCount :: nat
  deniedCount :: nat
  pendingCount :: nat
  approvalRate :: rat
  avgProcessingTime :: rat

definition decision_is :: "string \<Rightarrow> obj \<Rightarrow> bool" where
  "decision_is d c = (js_get c ''decision'' = JStr d)"

definition calculateStats :: "obj list \<Rightarrow> statistics" where
  "calculateStats cs =
     (if length cs = 0 then
        \<lparr>totalClaims = 0, approvedCount = 0, deniedCount = 0, pendingCount = 0,
         approvalRate = 0, avgProcessingTime = 0\<rparr>
      else
        let total = length cs;
            approved = length (filter (decision_is ''Approved'') cs);
            denied = length (filter (decision_is ''Denied'') cs);
            pending = length (filter (decision_is ''Pending'') cs);
            rate = (if total > 0 then js_times (js_divide (of_nat approved) (of_nat total)) 100
                    else 0)
        in \<lparr>totalClaims = total, approvedCount = approved, deniedCount = denied,
            pendingCount = pending,
            approvalRate = js_divide (of_int (math_round (js_times rate 100))) 100,
            avgProcessingTime = to_double (23 / 10)\<rparr>)"

subsection \<open>State and reducer\<close>

text \<open>
  An entry of the batch job's result list, as built by \<open>apiService.processPendingClaims\<close>:
  \<open>Processed id r st\<close> is the object \<open>{claim_id: id, success: true, result: r,
  originalStatus: st}\<close> and \<open>Failed id msg st\<close> is \<open>{claim_id: id, success: false,
  error: msg, originalStatus: st}\<close>.
\<close>

datatype pending_outcome =
  Processed jsval obj jsval
| Failed jsval string jsval


record batch_job =
  inProgress :: bool
  progress :: rat
  results :: "pending_outcome list"
  errors :: "string list"

record app_state =
  loading :: bool
  error :: "string option"
  claims :: "obj list"
  currentClaim :: "obj option"
  recentClaims :: "obj list"
  stats :: statistics
  settings :: obj
  batchProcessing :: batch_job

definition initialState :: app_state where
  "initialState =
     \<lparr>loading = False, error = None, claims = [], currentClaim = None, recentClaims = [],
      stats = \<lparr>totalClaims = 0, approvedCount = 0, deniedCount = 0, pendingCount = 0,
               approvalRate = 0, avgProcessingTime = 0\<rparr>,
      settings = [''apiBaseUrl'' \<mapsto> JStr ''http://localhost:8000'',
                  ''apiKey'' \<mapsto> JStr ''your_api_key_here'',
                  ''theme'' \<mapsto> JStr ''light'',
                  ''autoRefresh'' \<mapsto> JBool False,
                  ''refreshInterval'' \<mapsto> JNum 30000],
      batchProcessing = \<lparr>inProgress = False, progress = 0, results = [], errors = []\<rparr>\<rparr>"

text \<open>
  The actions of \<open>appReducer\<close>. \<open>ADD_CLAIM id result now\<close> carries, besides its payload,
  the time stamp \<open>new Date().toISOString()\<close> that the reducer reads while it builds the
  new claim. \<open>UPDATE_CLAIM\<close> is declared among the action types and has no case in the
  reducer. \<open>UPDATE_STATS\<close> is only dispatched with a complete statistics object, so the
  merge into the old one is a replacement. The call of \<open>apiService.updateConfig\<close> inside
  \<open>UPDATE_SETTINGS\<close> acts on the gateway and leaves the store's state alone.
\<close>

datatype action =
  SET_LOADING bool
| SET_ERROR "string option"
| CLEAR_ERROR
| ADD_CLAIM jsval obj string
| UPDATE_CLAIM
| SET_CURRENT_CLAIM "obj option"
| SET_RECENT_CLAIMS "obj list"
| UPDATE_STATS statistics
| UPDATE_SETTINGS obj
| START_BATCH_PROCESSING
| UPDATE_BATCH_PROGRESS rat
| FINISH_BATCH_PROCESSING
| ADD_BATCH_RESULT pending_outcome
| ADD_BATCH_ERROR string

text \<open>\<open>{id: claimId, ...result, processedAt: now}\<close>: later properties win.\<close>

definition newClaim :: "jsval \<Rightarrow> obj \<Rightarrow> string \<Rightarrow> obj" where
  "newClaim claimId result now = ([''id'' \<mapsto> claimId] ++ result)(''processedAt'' \<mapsto> JStr now)"

fun appReducer :: "app_state \<Rightarrow> action \<Rightarrow> app_state" where
  "appReducer state (SET_LOADING b) = state\<lparr>loading := b\<rparr>"
| "appReducer state (SET_ERROR e) = state\<lparr>error := e, loading := False\<rparr>"
| "appReducer state CLEAR_ERROR = state\<lparr>error := None\<rparr>"
| "appReducer state (ADD_CLAIM claimId result now) =
     state\<lparr>claims := newClaim claimId result now # claims state,
           recentClaims := newClaim claimId result now # take 9 (recentClaims state),
           currentClaim := Some (newClaim claimId result now)\<rparr>"
| "appReducer state (SET_CURRENT_CLAIM c) = state\<lparr>currentClaim := c\<rparr>"
| "appReducer state (SET_RECENT_CLAIMS cs) = state\<lparr>recentClaims := cs\<rparr>"
| "appReducer state (UPDATE_STATS st) = state\<lparr>stats := st\<rparr>"
| "appReducer state (UPDATE_SETTINGS p) = state\<lparr>settings := settings state ++ p\<rparr>"
| "appReducer state START_BATCH_PROCESSING =
     state\<lparr>batchProcessing :=
       \<lparr>inProgress = True, progress = 0, results = [], errors = []\<rparr>\<rparr>"
| "appReducer state (UPDATE_BATCH_PROGRESS p) =
     state\<lparr>batchProcessing := (batchProcessing state)\<lparr>progress := p\<rparr>\<rparr>"
| "appReducer state (ADD_BATCH_RESULT r) =
     state\<lparr>batchProcessing :=
       (batchProcessing state)\<lparr>results := results (batchProcessing state) @ [r]\<rparr>\<rparr>"
| "appReducer state (ADD_BATCH_ERROR e) =
     state\<lparr>batchProcessing :=
       (batchProcessing state)\<lparr>errors := errors (batchProcessing state) @ [e]\<rparr>\<rparr>"
| "appReducer state FINISH_BATCH_PROCESSING =
     state\<lparr>batchProcessing := (batchProcessing state)\<lparr>inProgress := False, progress := 100\<rparr>\<rparr>"
| "appReducer state UPDATE_CLAIM = state"

text \<open>A run of \<open>addClaim\<close> dispatches, each with its payload and time stamp.\<close>

fun add_claims :: "app_state \<Rightarrow> (jsval \<times> obj \<times> string) list \<Rightarrow> app_state" where
  "add_claims state [] = state"
| "add_claims state ((claimId, result, now) # rest) =
     add_claims (appReducer state (ADD_CLAIM claimId result now)) rest"

section \<open>The remote access gateway\<close>

subsection \<open>The response interceptor\<close>

text \<open>
  What axios hands to the rejection handler: \<open>response\<close> is present when the server
  answered (its \<open>status\<close> and the body \<open>data\<close>, \<open>None\<close> standing for a body that is
  \<open>null\<close> or \<open>undefined\<close>), \<open>request\<close> tells whether the request was sent, and
  \<open>message\<close> and \<open>code\<close> are the error's own.
\<close>

record http_response =
  status :: nat
  data :: "obj option"

record axios_error =
  response :: "http_response option"
  request :: bool
  message :: string
  code :: jsval

text \<open>
  The handler throws \<open>new Error(text)\<close> in every branch. The branches are named here;
  \<open>error_message\<close> gives the text each one throws, which is all a caller reads.
\<close>

datatype gateway_error =
  Unauthorized
| Forbidden
| NotFound
| MethodNotAllowed
| RateLimited
| ServerError
| CorsOrConnectivityError
| NetworkError
| UnknownError string

fun error_message :: "gateway_error \<Rightarrow> string" where
  "error_message Unauthorized = ''Invalid API key. Please check your credentials.''"
| "error_message Forbidden = ''Access forbidden. Please check your permissions.''"
| "error_message NotFound = ''Endpoint not found. Please check the API URL.''"
| "error_message MethodNotAllowed =
     ''Method not allowed. The backend endpoint may not support this HTTP method.''"
| "error_message RateLimited = ''Rate limit exceeded. Please try again later.''"
| "error_message ServerError = ''Server error. Please try again later.''"
| "error_message CorsOrConnectivityError =
     ''CORS error: Please ensure the backend server is running and configured to allow requests from this origin. Check the proxy configuration.''"
| "error_message NetworkError =
     ''Network error. Please check your connection and ensure the backend is running.''"
| "error_message (UnknownError text) = text"

text \<open>\<open>s.includes(p)\<close>: \<open>p\<close> occurs in \<open>s\<close> as a contiguous run.\<close>

fun starts_with :: "string \<Rightarrow> string \<Rightarrow> bool" where
  "starts_with s [] = True"
| "starts_with [] (p # ps) = False"
| "starts_with (x # xs) (p # ps) = (x = p \<and> starts_with xs ps)"

fun str_includes :: "string \<Rightarrow> string \<Rightarrow> bool" where
  "str_includes [] p = (p = [])"
| "str_includes (x # xs) p = (starts_with (x # xs) p \<or> str_includes xs p)"

text \<open>\<open>data?.message\<close>.\<close>

definition data_message :: "obj option \<Rightarrow> jsval" where
  "data_message d = (case d of None \<Rightarrow> JUndefined | Some body \<Rightarrow> js_get body ''message'')"

definition responseError :: "axios_error \<Rightarrow> gateway_error" where
  "responseError e =
     (case response e of
        Some r \<Rightarrow>
          (if status r = 401 then Unauthorized
           else if status r = 403 then Forbidden
           else if status r = 404 then NotFound
           else if status r = 405 then MethodNotAllowed
           else if status r = 429 then RateLimited
           else if status r = 500 then ServerError
           else UnknownError
                  (if truthy (data_message (data r)) then to_string (data_message (data r))
                   else ''HTTP '' @ string_of_nat (status r) @ '': '' @ message e))
      | None \<Rightarrow>
          (if request e then
             (if str_includes (message e) ''CORS'' \<or> code e = JStr ''ERR_NETWORK''
              then CorsOrConnectivityError
              else NetworkError)
           else UnknownError
                  (if message e \<noteq> [] then message e else ''An unexpected error occurred.'')))"

subsection \<open>Calls to the claim service\<close>

text \<open>
  The claim service is a parameter: for each endpoint the gateway uses, a function from the
  request and the service's state to the outcome axios reports and the service's next state.
  \<open>list_claims\<close> is \<open>GET /claims/\<close> with its query parameters and yields the claims of
  the listing, \<open>create_claim\<close> is \<open>POST /claims/\<close>, and \<open>update_claim\<close> is
  \<open>PUT /claims/{id}\<close> with the identifier as it is spliced into the path.
\<close>

record 'srv backend =
  list_claims :: "obj \<Rightarrow> 'srv \<Rightarrow> (axios_error + obj list) \<times> 'srv"
  create_claim :: "obj \<Rightarrow> 'srv \<Rightarrow> (axios_error + obj) \<times> 'srv"
  update_claim :: "string \<Rightarrow> obj \<Rightarrow> 'srv \<Rightarrow> (axios_error + obj) \<times> 'srv"

text \<open>
  A call through the axios instance: a rejection passes the interceptor, and what the
  caller catches is an \<open>Error\<close> of which it reads the message.
\<close>

definition through_interceptor :: "(axios_error + 'a) \<times> 'srv \<Rightarrow> (string + 'a) \<times> 'srv" where
  "through_interceptor out =
     (case out of
        (Inl e, srv) \<Rightarrow> (Inl (error_message (responseError e)), srv)
      | (Inr d, srv) \<Rightarrow> (Inr d, srv))"

definition api_get_claims :: "'srv backend \<Rightarrow> obj \<Rightarrow> 'srv \<Rightarrow> (string + obj list) \<times> 'srv" where
  "api_get_claims b params srv = through_interceptor (list_claims b params srv)"

definition api_post_claim :: "'srv backend \<Rightarrow> obj \<Rightarrow> 'srv \<Rightarrow> (string + obj) \<times> 'srv" where
  "api_post_claim b body srv = through_interceptor (create_claim b body srv)"

definition api_put_claim :: "'srv backend \<Rightarrow> string \<Rightarrow> obj \<Rightarrow> 'srv \<Rightarrow> (string + obj) \<times> 'srv" where
  "api_put_claim b claimId body srv = through_interceptor (update_claim b claimId body srv)"

definition requiredFields :: "string list" where
  "requiredFields = [''provider_id'', ''risk_id'', ''patient_id'', ''policy_id'', ''summary'']"

text \<open>The defaults of \<open>apiService.submitClaim\<close>, overridden by the caller's properties.\<close>

definition completeClaimData :: "string \<Rightarrow> obj \<Rightarrow> obj" where
  "completeClaimData now claimData =
     [''status'' \<mapsto> JStr ''Submitted'',
      ''submission_date'' \<mapsto> JStr now,
      ''ex_gratia_flag'' \<mapsto> JBool False,
      ''appeal_case_flag'' \<mapsto> JBool False,
      ''reason_code'' \<mapsto> JNull,
      ''reason_description'' \<mapsto> JNull] ++ claimData"

definition submitClaim :: "'srv backend \<Rightarrow> string \<Rightarrow> obj \<Rightarrow> 'srv \<Rightarrow> (string + obj) \<times> 'srv" where
  "submitClaim b now claimData srv =
     (let missingFields = filter (\<lambda>f. \<not> truthy (js_get claimData f)) requiredFields
      in if length missingFields > 0
         then (Inl (''Missing required fields: '' @ join '', '' missingFields), srv)
         else api_post_claim b (completeClaimData now claimData) srv)"

text \<open>
  \<open>apiService.getClaims\<close>: only \<open>skip\<close> and \<open>limit\<close> travel to the service; the other
  filters are applied to the listing on the client.
\<close>

definition client_filter :: "obj \<Rightarrow> string \<Rightarrow> obj list \<Rightarrow> obj list" where
  "client_filter filters k cs =
     (if truthy (js_get filters k) then filter (\<lambda>c. js_get c k = js_get filters k) cs else cs)"

definition getClaims :: "'srv backend \<Rightarrow> obj \<Rightarrow> 'srv \<Rightarrow> (string + obj list) \<times> 'srv" where
  "getClaims b filters srv =
     (let params = (if js_get filters ''skip'' \<noteq> JUndefined
                    then [''skip'' \<mapsto> js_get filters ''skip''] else Map.empty);
          params = (if js_get filters ''limit'' \<noteq> JUndefined
                    then params(''limit'' \<mapsto> js_get filters ''limit'') else params)
      in case api_get_claims b params srv of
           (Inl msg, srv') \<Rightarrow> (Inl msg, srv')
         | (Inr cs, srv') \<Rightarrow>
             (Inr (client_filter filters ''policy_id''
                    (client_filter filters ''patient_id''
                      (client_filter filters ''provider_id''
                        (client_filter filters ''status'' cs)))), srv'))"

definition updateClaimStatus ::
    "'srv backend \<Rightarrow> jsval \<Rightarrow> jsval \<Rightarrow> jsval \<Rightarrow> jsval \<Rightarrow> 'srv \<Rightarrow> (string + obj) \<times> 'srv" where
  "updateClaimStatus b claimId st reasonCode reasonDescription srv =
     api_put_claim b (to_string claimId)
       [''status'' \<mapsto> st, ''reason_code'' \<mapsto> reasonCode,
        ''reason_description'' \<mapsto> reasonDescription] srv"

definition processClaim :: "'srv backend \<Rightarrow> jsval \<Rightarrow> 'srv \<Rightarrow> (string + obj) \<times> 'srv" where
  "processClaim b claimId srv =
     updateClaimStatus b claimId (JStr ''Under Review'') JNull (JStr ''Claim is being processed'') srv"

subsection \<open>Processing the pending claims\<close>

definition is_pending :: "obj \<Rightarrow> bool" where
  "is_pending c = (js_get c ''status'' = JStr ''Submitted'' \<or> js_get c ''status'' = JStr ''Pending'')"

definition claim_ref :: "obj \<Rightarrow> jsval" where
  "claim_ref c = js_or (js_get c ''claim_id'') (js_get c ''id'')"

text \<open>
  The \<open>for ... of\<close> loop of \<open>apiService.processPendingClaims\<close>: both branches push onto the
  one array \<open>results\<close>, the accumulator \<open>acc\<close> here.
\<close>

fun process_each ::
    "'srv backend \<Rightarrow> obj list \<Rightarrow> 'srv \<Rightarrow> pending_outcome list \<Rightarrow> pending_outcome list \<times> 'srv" where
  "process_each b [] srv acc = (acc, srv)"
| "process_each b (c # rest) srv acc =
     (case processClaim b (claim_ref c) srv of
        (Inr r, srv') \<Rightarrow>
          process_each b rest srv' (acc @ [Processed (claim_ref c) r (js_get c ''status'')])
      | (Inl msg, srv') \<Rightarrow>
          process_each b rest srv' (acc @ [Failed (claim_ref c) msg (js_get c ''status'')]))"

definition api_processPendingClaims ::
    "'srv backend \<Rightarrow> 'srv \<Rightarrow> (string + pending_outcome list) \<times> 'srv" where
  "api_processPendingClaims b srv =
     (case getClaims b [''limit'' \<mapsto> JNum 100] srv of
        (Inl msg, srv') \<Rightarrow> (Inl msg, srv')
      | (Inr cs, srv') \<Rightarrow>
          (let pendingClaims = filter is_pending cs
           in if length pendingClaims = 0 then (Inr [], srv')
              else (case process_each b pendingClaims srv' [] of
                      (rs, srv'') \<Rightarrow> (Inr rs, srv''))))"

text \<open>
  The store's action \<open>processPendingClaims\<close>. \<open>progress_loop rs k s\<close> is the state after
  the first \<open>k\<close> rounds of its \<open>for\<close> loop over \<open>rs\<close>, started in \<open>s\<close>; the loop runs
  \<open>length rs\<close> rounds. The pause between two rounds has no effect on the state.
\<close>

definition record_progress :: "pending_outcome list \<Rightarrow> nat \<Rightarrow> app_state \<Rightarrow> app_state" where
  "record_progress rs i s =
     appReducer (appReducer s (ADD_BATCH_RESULT (rs ! i)))
       (UPDATE_BATCH_PROGRESS (js_times (js_divide (of_nat (i + 1)) (of_nat (length rs))) 100))"

primrec progress_loop :: "pending_outcome list \<Rightarrow> nat \<Rightarrow> app_state \<Rightarrow> app_state" where
  "progress_loop rs 0 s = s"
| "progress_loop rs (Suc i) s = record_progress rs i (progress_loop rs i s)"

definition processPendingClaims ::
    "'srv backend \<Rightarrow> app_state \<Rightarrow> 'srv \<Rightarrow> (string + pending_outcome list) \<times> app_state \<times> 'srv" where
  "processPendingClaims b state srv =
     (let s1 = appReducer (appReducer (appReducer state START_BATCH_PROCESSING)
                 (SET_LOADING True)) CLEAR_ERROR
      in case api_processPendingClaims b srv of
           (Inr rs, srv') \<Rightarrow>
             (Inr rs,
              appReducer (appReducer (progress_loop rs (length rs) s1) FINISH_BATCH_PROCESSING)
                (SET_LOADING False),
              srv')
         | (Inl msg, srv') \<Rightarrow>
             (Inl msg,
              appReducer (appReducer (appReducer s1 (ADD_BATCH_ERROR msg)) (SET_ERROR (Some msg)))
                (SET_LOADING False),
              srv'))"

section \<open>Validation\<close>

subsection \<open>\<open>ClaimUtils.validateClaim\<close>\<close>

text \<open>
  The test \<open>!v || (typeof v === 'string' && v.trim() === '')\<close> of the required-field checks.
\<close>

fun blank :: "jsval \<Rightarrow> bool" where
  "blank (JStr s) = (\<not> truthy (JStr s) \<or> trim_is_empty s)"
| "blank v = (\<not> truthy v)"

text \<open>
  The identifier pattern
  \<open>/^[0-9a-f]{8}-[0-9a-f]{4}-[1-5][0-9a-f]{3}-[89ab][0-9a-f]{3}-[0-9a-f]{12}$/i\<close>,
  matched position by position; under the flag \<open>i\<close> a letter matches in either case.
  \<open>test\<close> converts its argument to a string first.
\<close>

definition is_hex :: "char \<Rightarrow> bool" where
  "is_hex ch = (ch \<in> set ''0123456789abcdefABCDEF'')"

definition uuidRegex_test :: "string \<Rightarrow> bool" where
  "uuidRegex_test s =
     (length s = 36
      \<and> list_all is_hex (take 8 s)
      \<and> s ! 8 = CHR ''-''
      \<and> list_all is_hex (take 4 (drop 9 s))
      \<and> s ! 13 = CHR ''-''
      \<and> s ! 14 \<in> set ''12345''
      \<and> list_all is_hex (take 3 (drop 15 s))
      \<and> s ! 18 = CHR ''-''
      \<and> s ! 19 \<in> set ''89abAB''
      \<and> list_all is_hex (take 3 (drop 20 s))
      \<and> s ! 23 = CHR ''-''
      \<and> list_all is_hex (drop 24 s))"

definition uuidFields :: "string list" where
  "uuidFields = [''provider_id'', ''risk_id'', ''patient_id'', ''policy_id'']"

definition validStatuses :: "string list" where
  "validStatuses = [''Submitted'', ''Pending'', ''Approved'', ''Denied'', ''Under Review'']"

definition booleanFields :: "string list" where
  "booleanFields = [''ex_gratia_flag'', ''appeal_case_flag'']"

fun is_boolean :: "jsval \<Rightarrow> bool" where
  "is_boolean (JBool b) = True"
| "is_boolean v = False"

text \<open>\<open>validStatuses.includes(v)\<close> compares with \<open>===\<close>: only a string can be found.\<close>

fun status_listed :: "jsval \<Rightarrow> bool" where
  "status_listed (JStr s) = (s \<in> set validStatuses)"
| "status_listed v = False"

text \<open>The five groups of checks of \<open>validateClaim\<close>, each pushing onto \<open>errors\<close>.\<close>

definition required_check :: "obj \<Rightarrow> string \<Rightarrow> string list" where
  "required_check claimData f =
     (if blank (js_get claimData f) then [f @ '' is required''] else [])"

definition uuid_check :: "obj \<Rightarrow> string \<Rightarrow> string list" where
  "uuid_check claimData f =
     (if truthy (js_get claimData f) \<and> \<not> uuidRegex_test (to_string (js_get claimData f))
      then [f @ '' must be a valid UUID''] else [])"

definition status_check :: "obj \<Rightarrow> string list" where
  "status_check claimData =
     (if truthy (js_get claimData ''status'') \<and> \<not> status_listed (js_get claimData ''status'')
      then [''status must be one of: '' @ join '', '' validStatuses] else [])"

definition boolean_check :: "obj \<Rightarrow> string \<Rightarrow> string list" where
  "boolean_check claimData f =
     (if js_get claimData f \<noteq> JUndefined \<and> \<not> is_boolean (js_get claimData f)
      then [f @ '' must be a boolean value''] else [])"

text \<open>
  Whether \<open>new Date(v).getTime()\<close> is a number depends on the engine's date parser, which
  is the parameter \<open>parses\<close>.
\<close>

definition date_check :: "(jsval \<Rightarrow> bool) \<Rightarrow> obj \<Rightarrow> string list" where
  "date_check parses claimData =
     (if truthy (js_get claimData ''submission_date'')
         \<and> \<not> parses (js_get claimData ''submission_date'')
      then [''submission_date must be a valid ISO date string''] else [])"

text \<open>
  The report \<open>{isValid, errors}\<close>. The batch job of the store has a field \<open>errors\<close>
  already, so the one of this report is \<open>errors_v\<close>; likewise \<open>isValid_f\<close> and
  \<open>errors_f\<close> in the report of the form, \<open>results_s\<close> and \<open>errors_s\<close> in the
  summary of a batch, and the suffix \<open>_h\<close> in the state of the hook.
\<close>

record validation =
  isValid :: bool
  errors_v :: "string list"

definition validateClaim :: "(jsval \<Rightarrow> bool) \<Rightarrow> obj \<Rightarrow> validation" where
  "validateClaim parses claimData =
     (let errs = concat (map (required_check claimData) requiredFields)
               @ concat (map (uuid_check claimData) uuidFields)
               @ status_check claimData
               @ concat (map (boolean_check claimData) booleanFields)
               @ date_check parses claimData
      in \<lparr>isValid = (length errs = 0), errors_v = errs\<rparr>)"

subsection \<open>\<open>FormUtils\<close>\<close>

text \<open>
  A field configuration of \<open>CLAIM_FORM_FIELDS\<close>, reduced to what \<open>validateField\<close> reads.
  The parts of \<open>validation\<close> are \<open>None\<close> where the configuration has none.
\<close>

record field_config =
  label :: string
  required :: bool
  pattern :: "(string \<Rightarrow> bool) option"
  validation_message :: "string option"
  minLength :: "nat option"
  maxLength :: "nat option"

definition id_field :: "string \<Rightarrow> field_config" where
  "id_field l =
     \<lparr>label = l, required = True, pattern = Some uuidRegex_test,
      validation_message = Some ''Must be a valid UUID format'',
      minLength = None, maxLength = None\<rparr>"

definition plain_field :: "string \<Rightarrow> bool \<Rightarrow> field_config" where
  "plain_field l r =
     \<lparr>label = l, required = r, pattern = None, validation_message = None,
      minLength = None, maxLength = None\<rparr>"

definition summary_field :: field_config where
  "summary_field =
     \<lparr>label = ''Claim Summary'', required = True, pattern = None,
      validation_message = Some ''Summary must be between 10 and 1000 characters'',
      minLength = Some 10, maxLength = Some 1000\<rparr>"

definition CLAIM_FORM_FIELDS :: "(string \<times> field_config) list" where
  "CLAIM_FORM_FIELDS =
     [(''provider_id'', id_field ''Provider ID''),
      (''risk_id'', id_field ''Risk ID''),
      (''patient_id'', id_field ''Patient ID''),
      (''policy_id'', id_field ''Policy ID''),
      (''summary'', summary_field),
      (''status'', plain_field ''Status'' True),
      (''submission_date'', plain_field ''Submission Date'' False),
      (''ex_gratia_flag'', plain_field ''Ex Gratia Payment'' False),
      (''appeal_case_flag'', plain_field ''Appeal Case'' False)]"

text \<open>\<open>value.length\<close>: a number for a string, \<open>undefined\<close> for the other scalars.\<close>

fun js_length :: "jsval \<Rightarrow> nat option" where
  "js_length (JStr s) = Some (length s)"
| "js_length v = None"

definition pattern_errors :: "jsval \<Rightarrow> field_config \<Rightarrow> string list" where
  "pattern_errors v config =
     (case pattern config of
        None \<Rightarrow> []
      | Some test \<Rightarrow>
          if \<not> test (to_string v)
          then [case validation_message config of
                  None \<Rightarrow> label config @ '' format is invalid''
                | Some m \<Rightarrow> if m \<noteq> [] then m else label config @ '' format is invalid'']
          else [])"

definition minLength_errors :: "jsval \<Rightarrow> field_config \<Rightarrow> string list" where
  "minLength_errors v config =
     (case minLength config of
        None \<Rightarrow> []
      | Some m \<Rightarrow>
          if m \<noteq> 0 \<and> (case js_length v of None \<Rightarrow> False | Some n \<Rightarrow> n < m)
          then [label config @ '' must be at least '' @ string_of_nat m @ '' characters'']
          else [])"

definition maxLength_errors :: "jsval \<Rightarrow> field_config \<Rightarrow> string list" where
  "maxLength_errors v config =
     (case maxLength config of
        None \<Rightarrow> []
      | Some m \<Rightarrow>
          if m \<noteq> 0 \<and> (case js_length v of None \<Rightarrow> False | Some n \<Rightarrow> n > m)
          then [label config @ '' must not exceed '' @ string_of_nat m @ '' characters'']
          else [])"

definition validateField :: "string \<Rightarrow> jsval \<Rightarrow> field_config \<Rightarrow> string list" where
  "validateField fieldName v config =
     (if required config \<and> blank v then [label config @ '' is required'']
      else if blank v then []
      else pattern_errors v config @ minLength_errors v config @ maxLength_errors v config)"

text \<open>
  The report of \<open>validateForm\<close>: \<open>errors_f\<close> lists, in the order of the form's fields, the
  fields that have errors, each with its errors.
\<close>

record form_validation =
  isValid_f :: bool
  errors_f :: "(string \<times> string list) list"

definition field_report :: "obj \<Rightarrow> string \<times> field_config \<Rightarrow> (string \<times> string list) list" where
  "field_report formData entry =
     (let fieldErrors = validateField (fst entry) (js_get formData (fst entry)) (snd entry)
      in if length fieldErrors > 0 then [(fst entry, fieldErrors)] else [])"

definition validateForm :: "obj \<Rightarrow> form_validation" where
  "validateForm formData =
     (let errs = concat (map (field_report formData) CLAIM_FORM_FIELDS)
      in \<lparr>isValid_f = (errs = []), errors_f = errs\<rparr>)"

section \<open>Batch submission\<close>

text \<open>
  \<open>apiService.submitBatchClaims\<close>. \<open>Item_ok i d\<close> is the entry \<open>{index: i, success: true,
  data: d}\<close> of \<open>results\<close> and \<open>Item_failed i msg c\<close> is the entry \<open>{index: i, success:
  false, error: msg, data: c}\<close> of \<open>errors\<close>. \<open>clock i\<close> is the time stamp read while
  item \<open>i\<close> is submitted.
\<close>

datatype batch_item =
  Item_ok nat obj
| Item_failed nat string obj

fun index :: "batch_item \<Rightarrow> nat" where
  "index (Item_ok i d) = i"
| "index (Item_failed i msg c) = i"

record batch_summary =
  total :: nat
  successful :: nat
  failed :: nat
  results_s :: "batch_item list"
  errors_s :: "batch_item list"

fun submit_each ::
    "'srv backend \<Rightarrow> (nat \<Rightarrow> string) \<Rightarrow> obj list \<Rightarrow> nat \<Rightarrow> 'srv \<Rightarrow> batch_item list \<Rightarrow> batch_item list
      \<Rightarrow> batch_item list \<times> batch_item list \<times> 'srv" where
  "submit_each b clock [] i srv oks fails = (oks, fails, srv)"
| "submit_each b clock (c # rest) i srv oks fails =
     (case submitClaim b (clock i) c srv of
        (Inr d, srv') \<Rightarrow> submit_each b clock rest (i + 1) srv' (oks @ [Item_ok i d]) fails
      | (Inl msg, srv') \<Rightarrow>
          submit_each b clock rest (i + 1) srv' oks (fails @ [Item_failed i msg c]))"

definition api_submitBatchClaims ::
    "'srv backend \<Rightarrow> (nat \<Rightarrow> string) \<Rightarrow> obj list \<Rightarrow> 'srv \<Rightarrow> (string + batch_summary) \<times> 'srv" where
  "api_submitBatchClaims b clock claimsArray srv =
     (if length claimsArray = 0 then (Inl ''Claims array is required and cannot be empty'', srv)
      else (case submit_each b clock claimsArray 0 srv [] [] of
              (oks, fails, srv') \<Rightarrow>
                (Inr \<lparr>total = length claimsArray, successful = length oks, failed = length fails,
                      results_s = oks, errors_s = fails\<rparr>, srv')))"

text \<open>
  The hook \<open>useClaims\<close> keeps its own list of claims next to a loading flag and the last
  error. Its \<open>submitBatchClaims\<close> validates every claim before it calls the gateway. The
  summary it gets back has no property \<open>claims\<close>, so the branch that would add to the
  local list is never taken.
\<close>

record hook_state =
  claims_h :: "obj list"
  loading_h :: bool
  error_h :: "string option"

definition validation_line :: "(jsval \<Rightarrow> bool) \<Rightarrow> nat \<times> obj \<Rightarrow> string list" where
  "validation_line parses ic =
     (let v = validateClaim parses (snd ic)
      in if \<not> isValid v
         then [''Claim '' @ string_of_nat (fst ic + 1) @ '': '' @ join '', '' (errors_v v)]
         else [])"

definition validationErrors :: "(jsval \<Rightarrow> bool) \<Rightarrow> obj list \<Rightarrow> string list" where
  "validationErrors parses claimsArray =
     concat (map (validation_line parses) (enumerate 0 claimsArray))"

definition submitBatchClaims ::
    "(jsval \<Rightarrow> bool) \<Rightarrow> 'srv backend \<Rightarrow> (nat \<Rightarrow> string) \<Rightarrow> obj list \<Rightarrow> hook_state \<Rightarrow> 'srv
      \<Rightarrow> (string + batch_summary) \<times> hook_state \<times> 'srv" where
  "submitBatchClaims parses b clock claimsArray h srv =
     (let h1 = h\<lparr>loading_h := True, error_h := None\<rparr>
      in if length (validationErrors parses claimsArray) > 0
         then (let msg = ''Validation failed:'' @ [CHR 0x0A]
                           @ join [CHR 0x0A] (validationErrors parses claimsArray)
               in (Inl msg, h1\<lparr>error_h := Some msg, loading_h := False\<rparr>, srv))
         else (case api_submitBatchClaims b clock claimsArray srv of
                 (Inl msg, srv') \<Rightarrow> (Inl msg, h1\<lparr>error_h := Some msg, loading_h := False\<rparr>, srv')
               | (Inr summary, srv') \<Rightarrow> (Inr summary, h1\<lparr>loading_h := False\<rparr>, srv')))"

section \<open>The answers of the service, item by item\<close>

text \<open>
  What the gateway is told when it sends one request per item, in the order of the items:
  \<open>update_in_order\<close> marks each claim as under review, \<open>post_in_order\<close> creates each
  claim (item \<open>i\<close> completed with the time stamp \<open>clock i\<close>). Both give the answers and
  the state in which the service is left.
\<close>

fun update_in_order :: "'srv backend \<Rightarrow> obj list \<Rightarrow> 'srv \<Rightarrow> (string + obj) list \<times> 'srv" where
  "update_in_order b [] srv = ([], srv)"
| "update_in_order b (c # rest) srv =
     (case processClaim b (claim_ref c) srv of
        (r, srv') \<Rightarrow>
          (case update_in_order b rest srv' of (rs, srv'') \<Rightarrow> (r # rs, srv'')))"

fun post_in_order ::
    "'srv backend \<Rightarrow> (nat \<Rightarrow> string) \<Rightarrow> obj list \<Rightarrow> nat \<Rightarrow> 'srv \<Rightarrow> (string + obj) list \<times> 'srv" where
  "post_in_order b clock [] i srv = ([], srv)"
| "post_in_order b clock (c # rest) i srv =
     (case api_post_claim b (completeClaimData (clock i) c) srv of
        (r, srv') \<Rightarrow>
          (case post_in_order b clock rest (i + 1) srv' of (rs, srv'') \<Rightarrow> (r # rs, srv'')))"

text \<open>The entry a claim and the answer to its update make.\<close>

fun outcome_of :: "obj \<Rightarrow> string + obj \<Rightarrow> pending_outcome" where
  "outcome_of c (Inr r) = Processed (claim_ref c) r (js_get c ''status'')"
| "outcome_of c (Inl msg) = Failed (claim_ref c) msg (js_get c ''status'')"

text \<open>The entries the numbered items and the answers to their submissions make.\<close>

fun ok_items :: "nat \<Rightarrow> (string + obj) list \<Rightarrow> batch_item list" where
  "ok_items i [] = []"
| "ok_items i (Inr d # rs) = Item_ok i d # ok_items (i + 1) rs"
| "ok_items i (Inl msg # rs) = ok_items (i + 1) rs"

fun failed_items :: "nat \<Rightarrow> obj list \<Rightarrow> (string + obj) list \<Rightarrow> batch_item list" where
  "failed_items i (c # cs) (Inl msg # rs) = Item_failed i msg c # failed_items (i + 1) cs rs"
| "failed_items i (c # cs) (Inr d # rs) = failed_items (i + 1) cs rs"
| "failed_items i cs rs = []"

section \<open>Sample data\<close>

text \<open>\<open>ClaimUtils.getSampleClaim\<close>, with the time stamp it reads as parameter.\<close>

definition getSampleClaim :: "string \<Rightarrow> obj" where
  "getSampleClaim now =
     [''provider_id'' \<mapsto> JStr ''c0a19ac4-96ba-4c5f-8e44-425d3173b0d6'',
      ''risk_id'' \<mapsto> JStr ''1084bc4d-dd50-4eb4-a7da-591dc0f9bd76'',
      ''status'' \<mapsto> JStr ''Submitted'',
      ''submission_date'' \<mapsto> JStr now,
      ''summary'' \<mapsto> JStr ''Went to a therapist for depression counselling and anti-depressant meds'',
      ''ex_gratia_flag'' \<mapsto> JBool False,
      ''appeal_case_flag'' \<mapsto> JBool False,
      ''reason_code'' \<mapsto> JNull,
      ''reason_description'' \<mapsto> JNull,
      ''patient_id'' \<mapsto> JStr ''461caa86-be43-4b30-b67a-182fb964c546'',
      ''policy_id'' \<mapsto> JStr ''3d3eef35-4bd4-4e62-a20c-58b8a85e9000'']"

definition noon :: string where
  "noon = ''2025-07-20T12:00:00.000Z''"

text \<open>A date parser that accepts every string.\<close>

fun any_string :: "jsval \<Rightarrow> bool" where
  "any_string (JStr s) = True"
| "any_string v = False"

text \<open>
  A service for the examples. Its state is the list of the claims it holds. It lists them
  all, stores a created claim under the identifier \<open>new\<close>, and merges an update into the
  claim addressed; it answers 503 without a body to the creation of a claim whose summary
  is \<open>unavailable\<close> and to an update addressed to \<open>c-2\<close>.
\<close>

definition outage :: axios_error where
  "outage =
     \<lparr>response = Some \<lparr>status = 503, data = None\<rparr>, request = True,
      message = ''Request failed with status code 503'', code = JStr ''ERR_BAD_RESPONSE''\<rparr>"

definition held_update :: "string \<Rightarrow> obj \<Rightarrow> obj \<Rightarrow> obj" where
  "held_update claimId body c = (if to_string (claim_ref c) = claimId then c ++ body else c)"

definition claim_service :: "(obj list) backend" where
  "claim_service =
     \<lparr>list_claims = (\<lambda>params held. (Inr held, held)),
      create_claim = (\<lambda>body held.
        if js_get body ''summary'' = JStr ''unavailable'' then (Inl outage, held)
        else (Inr (body(''claim_id'' \<mapsto> JStr ''new'')), held @ [body(''claim_id'' \<mapsto> JStr ''new'')])),
      update_claim = (\<lambda>claimId body held.
        if claimId = ''c-2'' then (Inl outage, held)
        else (Inr body, map (held_update claimId body) held))\<rparr>"

definition held_claim :: "string \<Rightarrow> string \<Rightarrow> obj" where
  "held_claim claimId st = [''claim_id'' \<mapsto> JStr claimId, ''status'' \<mapsto> JStr st]"

text \<open>A store whose recent claims are ten.\<close>

definition add_of :: "nat \<Rightarrow> jsval \<times> obj \<times> string" where
  "add_of n = (JNum (int n), [''decision'' \<mapsto> JStr ''Approved''], noon)"

definition full_store :: app_state where
  "full_store = add_claims initialState (map add_of [0 ..< 10])"

definition rejected :: "nat \<Rightarrow> obj option \<Rightarrow> axios_error" where
  "rejected st body =
     \<lparr>response = Some \<lparr>status = st, data = body\<rparr>, request = True,
      message = ''Request failed'', code = JStr ''ERR_BAD_RESPONSE''\<rparr>"




text \<open>Two states of the example service: nothing waits in the first, two claims in the second.\<close>

definition settled :: "obj list" where
  "settled = [held_claim ''c-1'' ''Approved'', held_claim ''c-3'' ''Denied'']"


text \<open>
  Variants of the sample claim: one without provider and summary, one whose provider is two
  blanks, one whose summary has nine characters.
\<close>

definition without_ids :: obj where
  "without_ids = (getSampleClaim noon)(''provider_id'' := None, ''summary'' := None)"

definition blank_provider :: obj where
  "blank_provider = (getSampleClaim noon)(''provider_id'' \<mapsto> JStr ''  '')"

definition short_summary :: obj where
  "short_summary = (getSampleClaim noon)(''summary'' \<mapsto> JStr ''Too short'')"

text \<open>
  Batches for the examples: three valid claims of which the second is the one the service
  refuses, and three claims of which the second and the third are invalid. The hook starts
  idle, with no claims of its own.
\<close>

definition unavailable_claim :: obj where
  "unavailable_claim = (getSampleClaim noon)(''summary'' \<mapsto> JStr ''unavailable'')"

definition three_claims :: "obj list" where
  "three_claims = [getSampleClaim noon, unavailable_claim, getSampleClaim noon]"

definition flawed_claims :: "obj list" where
  "flawed_claims = [getSampleClaim noon, blank_provider, without_ids]"

definition idle_hook :: hook_state where
  "idle_hook = \<lparr>claims_h = [], loading_h = False, error_h = None\<rparr>"

section \<open>Properties of the arithmetic\<close>










section \<open>Properties of the store\<close>

subsection \<open>Statistics\<close>

text \<open>
  Claim C1 has the approved, denied and pending counts follow the \<open>status\<close> of the
  entries: for the three entries with \<open>status\<close> Approved, Denied, Approved it expects
  total 3, approved 2, denied 1 and the rate 66.67. On these entries, which have no
  \<open>decision\<close> property, \<open>calculateStats\<close> gives total 3, no approved, no denied and no
  pending claim, and the rate 0.
\<close>

theorem calculateStats_of_status_entries:
  "calculateStats [[''status'' \<mapsto> JStr ''Approved''], [''status'' \<mapsto> JStr ''Denied''],
                   [''status'' \<mapsto> JStr ''Approved'']]
   = \<lparr>totalClaims = 3, approvedCount = 0, deniedCount = 0, pendingCount = 0,
      approvalRate = 0, avgProcessingTime = to_double (23 / 10)\<rparr>"
  by code_simp

text \<open>
  The counts are those of the \<open>decision\<close> property. With the decisions Approved, Denied,
  Approved the statistics are total 3, approved 2, denied 1 and the binary64 number
  nearest to 66.67; with 23 approved claims of 160 the rate is the one nearest to 14.37,
  the product \<open>(23 / 160) * 100\<close> falling just short of 14.375.
\<close>

lemma calculateStats_counts:
  "totalClaims (calculateStats cs) = length cs
   \<and> approvedCount (calculateStats cs) = length (filter (decision_is ''Approved'') cs)
   \<and> deniedCount (calculateStats cs) = length (filter (decision_is ''Denied'') cs)
   \<and> pendingCount (calculateStats cs) = length (filter (decision_is ''Pending'') cs)"
  by (simp add: calculateStats_def Let_def)

lemma calculateStats_of_decisions:
  "calculateStats [[''decision'' \<mapsto> JStr ''Approved''], [''decision'' \<mapsto> JStr ''Denied''],
                   [''decision'' \<mapsto> JStr ''Approved'']]
   = \<lparr>totalClaims = 3, approvedCount = 2, deniedCount = 1, pendingCount = 0,
      approvalRate = to_double (6667 / 100), avgProcessingTime = to_double (23 / 10)\<rparr>"
  by code_simp

lemma approvalRate_23_of_160:
  "approvalRate (calculateStats (replicate 23 [''decision'' \<mapsto> JStr ''Approved'']
                                   @ replicate 137 [''decision'' \<mapsto> JStr ''Denied'']))
   = to_double (1437 / 100)"
  by code_simp

subsection \<open>Adding a claim\<close>

lemma add_claims_bound:
  "length (recentClaims s) \<le> 10 \<Longrightarrow> length (recentClaims (add_claims s adds)) \<le> 10"
proof (induction adds arbitrary: s)
  case Nil
  then show ?case by simp
next
  case (Cons a adds)
  obtain claimId result now where a: "a = (claimId, result, now)"
    by (cases a) auto
  have "length (recentClaims (appReducer s (ADD_CLAIM claimId result now))) \<le> 10"
    by simp
  then show ?case
    unfolding a by (simp add: Cons.IH)
qed

text \<open>
  Claim C8. When the recent claims are ten, \<open>ADD_CLAIM\<close> leaves ten of them: the new claim
  first, then the former ones but the last, in their order. Any run of \<open>ADD_CLAIM\<close> from a
  state with at most ten recent claims ends with at most ten, and so does any run of at
  least one \<open>ADD_CLAIM\<close> from any state.
\<close>

theorem recentClaims_cap:
  "(length (recentClaims s) = 10 \<longrightarrow>
      length (recentClaims (appReducer s (ADD_CLAIM claimId result now))) = 10
      \<and> hd (recentClaims (appReducer s (ADD_CLAIM claimId result now))) = newClaim claimId result now
      \<and> tl (recentClaims (appReducer s (ADD_CLAIM claimId result now))) = butlast (recentClaims s))
   \<and> (length (recentClaims s) \<le> 10 \<longrightarrow> length (recentClaims (add_claims s adds)) \<le> 10)
   \<and> (adds \<noteq> [] \<longrightarrow> length (recentClaims (add_claims s adds)) \<le> 10)"
proof (intro conjI impI)
  assume full: "length (recentClaims s) = 10"
  show "length (recentClaims (appReducer s (ADD_CLAIM claimId result now))) = 10"
    using full by simp
  show "hd (recentClaims (appReducer s (ADD_CLAIM claimId result now))) = newClaim claimId result now"
    by simp
  show "tl (recentClaims (appReducer s (ADD_CLAIM claimId result now))) = butlast (recentClaims s)"
    using full by (simp add: butlast_conv_take)
next
  assume "length (recentClaims s) \<le> 10"
  then show "length (recentClaims (add_claims s adds)) \<le> 10"
    by (rule add_claims_bound)
next
  assume "adds \<noteq> []"
  then obtain a rest where adds: "adds = a # rest"
    by (cases adds) auto
  obtain claimId' result' now' where a: "a = (claimId', result', now')"
    by (cases a) auto
  have "length (recentClaims (appReducer s (ADD_CLAIM claimId' result' now'))) \<le> 10"
    by simp
  then show "length (recentClaims (add_claims s adds)) \<le> 10"
    unfolding adds a by (simp add: add_claims_bound)
qed

theorem recentClaims_cap_witness:
  "length (recentClaims full_store) = 10
   \<and> length (recentClaims (appReducer full_store (ADD_CLAIM (JStr ''c-11'') (getSampleClaim noon) noon))) = 10
   \<and> hd (recentClaims (appReducer full_store (ADD_CLAIM (JStr ''c-11'') (getSampleClaim noon) noon)))
       = newClaim (JStr ''c-11'') (getSampleClaim noon) noon
   \<and> tl (recentClaims (appReducer full_store (ADD_CLAIM (JStr ''c-11'') (getSampleClaim noon) noon)))
       = butlast (recentClaims full_store)
   \<and> length (recentClaims (add_claims full_store [add_of 10, add_of 11])) \<le> 10"
proof -
  have full: "length (recentClaims full_store) = 10"
    by code_simp
  have more: "[add_of 10, add_of 11] \<noteq> []"
    by simp
  show ?thesis
    using recentClaims_cap [of full_store "JStr ''c-11''" "getSampleClaim noon" noon
        "[add_of 10, add_of 11]"] full more
    by simp
qed

text \<open>
  Claim C10. \<open>ADD_CLAIM\<close> sets the current claim to the claim it builds, the same it puts
  in front of the claims and of the recent claims. That claim has the properties of the
  result, the time stamp as \<open>processedAt\<close>, and the identifier as \<open>id\<close> unless the
  result has an \<open>id\<close> of its own. The rest of the state stays as it was.
\<close>

theorem add_claim_sets_current:
  "currentClaim (appReducer s (ADD_CLAIM claimId result now)) = Some (newClaim claimId result now)
   \<and> claims (appReducer s (ADD_CLAIM claimId result now)) = newClaim claimId result now # claims s
   \<and> recentClaims (appReducer s (ADD_CLAIM claimId result now))
       = newClaim claimId result now # take 9 (recentClaims s)
   \<and> newClaim claimId result now k =
       (if k = ''processedAt'' then Some (JStr now)
        else case result k of Some v \<Rightarrow> Some v
             | None \<Rightarrow> if k = ''id'' then Some claimId else None)
   \<and> loading (appReducer s (ADD_CLAIM claimId result now)) = loading s
   \<and> error (appReducer s (ADD_CLAIM claimId result now)) = error s
   \<and> stats (appReducer s (ADD_CLAIM claimId result now)) = stats s
   \<and> settings (appReducer s (ADD_CLAIM claimId result now)) = settings s
   \<and> batchProcessing (appReducer s (ADD_CLAIM claimId result now)) = batchProcessing s"
  by (simp add: newClaim_def map_add_def split: option.split)

theorem add_claim_sets_current_witness:
  "currentClaim (appReducer full_store (ADD_CLAIM (JStr ''c-11'') (getSampleClaim noon) noon))
     = Some (newClaim (JStr ''c-11'') (getSampleClaim noon) noon)
   \<and> newClaim (JStr ''c-11'') (getSampleClaim noon) noon ''id'' = Some (JStr ''c-11'')
   \<and> newClaim (JStr ''c-11'') (getSampleClaim noon) noon ''processedAt'' = Some (JStr noon)
   \<and> newClaim (JStr ''c-11'') (getSampleClaim noon) noon ''status'' = Some (JStr ''Submitted'')"
  using add_claim_sets_current [of full_store "JStr ''c-11''" "getSampleClaim noon" noon "''id''"]
    add_claim_sets_current [of full_store "JStr ''c-11''" "getSampleClaim noon" noon "''processedAt''"]
    add_claim_sets_current [of full_store "JStr ''c-11''" "getSampleClaim noon" noon "''status''"]
  by (simp add: getSampleClaim_def)

section \<open>Properties of the gateway\<close>

subsection \<open>Status codes\<close>

text \<open>
  Claim C5, as the code has it. When a response was received, the interceptor maps 401 to
  Unauthorized, 403 to Forbidden, 404 to NotFound, 405 to MethodNotAllowed, 429 to
  RateLimited and 500 to ServerError. Every other status, those from 501 to 599 among
  them, gives UnknownError; its text is the message of the response body when that is
  truthy, and \<open>HTTP\<close>, the status and the error's own message otherwise.
\<close>

theorem responseError_by_status:
  "response e = Some r \<Longrightarrow>
     (status r = 401 \<longrightarrow> responseError e = Unauthorized)
     \<and> (status r = 403 \<longrightarrow> responseError e = Forbidden)
     \<and> (status r = 404 \<longrightarrow> responseError e = NotFound)
     \<and> (status r = 405 \<longrightarrow> responseError e = MethodNotAllowed)
     \<and> (status r = 429 \<longrightarrow> responseError e = RateLimited)
     \<and> (status r = 500 \<longrightarrow> responseError e = ServerError)
     \<and> (status r \<notin> {401, 403, 404, 405, 429, 500} \<longrightarrow>
           responseError e =
             UnknownError
               (if truthy (data_message (data r)) then to_string (data_message (data r))
                else ''HTTP '' @ string_of_nat (status r) @ '': '' @ message e))
     \<and> (status r \<notin> {401, 403, 404, 405, 429, 500} \<and> data r = Some body
          \<and> body ''message'' = Some (JStr text) \<and> text \<noteq> [] \<longrightarrow>
           error_message (responseError e) = text)
     \<and> (500 < status r \<and> status r < 600 \<longrightarrow> responseError e \<noteq> ServerError)"
proof -
  assume r: "response e = Some r"
  have named: "status r = 401 \<longrightarrow> responseError e = Unauthorized"
    "status r = 403 \<longrightarrow> responseError e = Forbidden"
    "status r = 404 \<longrightarrow> responseError e = NotFound"
    "status r = 405 \<longrightarrow> responseError e = MethodNotAllowed"
    "status r = 429 \<longrightarrow> responseError e = RateLimited"
    "status r = 500 \<longrightarrow> responseError e = ServerError"
    using r by (simp_all add: responseError_def)
  have other: "status r \<notin> {401, 403, 404, 405, 429, 500} \<longrightarrow>
           responseError e =
             UnknownError
               (if truthy (data_message (data r)) then to_string (data_message (data r))
                else ''HTTP '' @ string_of_nat (status r) @ '': '' @ message e)"
    using r by (simp add: responseError_def)
  have carried: "status r \<notin> {401, 403, 404, 405, 429, 500} \<and> data r = Some body
          \<and> body ''message'' = Some (JStr text) \<and> text \<noteq> [] \<longrightarrow>
           error_message (responseError e) = text"
    using r by (simp add: responseError_def data_message_def js_get_def)
  have upper: "500 < status r \<and> status r < 600 \<longrightarrow> responseError e \<noteq> ServerError"
    using r by (simp add: responseError_def)
  from named other carried upper show ?thesis
    by blast
qed

text \<open>A 503 without a body is not mapped to ServerError.\<close>

theorem responseError_503_counterexample:
  "responseError outage = UnknownError ''HTTP 503: Request failed with status code 503''
   \<and> responseError outage \<noteq> ServerError"
  by (simp add: responseError_def outage_def data_message_def string_of_nat.simps)

theorem responseError_by_status_witness:
  "response (rejected 401 None) = Some \<lparr>status = 401, data = None\<rparr>
   \<and> responseError (rejected 401 None) = Unauthorized
   \<and> responseError (rejected 500 None) = ServerError
   \<and> responseError (rejected 422 (Some [''message'' \<mapsto> JStr ''summary too long''])) = UnknownError ''summary too long''
   \<and> responseError (rejected 502 None) = UnknownError ''HTTP 502: Request failed''"
proof -
  have r1: "response (rejected 401 None) = Some \<lparr>status = 401, data = None\<rparr>"
    and r2: "response (rejected 500 None) = Some \<lparr>status = 500, data = None\<rparr>"
    and r3: "response (rejected 422 (Some [''message'' \<mapsto> JStr ''summary too long'']))
              = Some \<lparr>status = 422, data = Some [''message'' \<mapsto> JStr ''summary too long'']\<rparr>"
    and r4: "response (rejected 502 None) = Some \<lparr>status = 502, data = None\<rparr>"
    by (simp_all add: rejected_def)
  have s: "string_of_nat 502 = ''502''"
    by (simp add: string_of_nat.simps)
  show ?thesis
    using responseError_by_status [OF r1] responseError_by_status [OF r2]
      responseError_by_status [OF r3] responseError_by_status [OF r4] r1 s
    by (simp add: data_message_def js_get_def rejected_def)
qed

subsection \<open>Processing the pending claims\<close>


lemma process_each_outcomes:
  "process_each b cs srv acc =
     (acc @ map2 outcome_of cs (fst (update_in_order b cs srv)), snd (update_in_order b cs srv))"
proof (induction cs arbitrary: srv acc)
  case Nil
  show ?case by simp
next
  case (Cons c rest)
  obtain r srv' where step: "processClaim b (claim_ref c) srv = (r, srv')"
    by (cases "processClaim b (claim_ref c) srv")
  obtain rs srv'' where tail: "update_in_order b rest srv' = (rs, srv'')"
    by (cases "update_in_order b rest srv'")
  show ?case
  proof (cases r)
    case (Inl msg)
    with step tail Cons.IH [of srv' "acc @ [Failed (claim_ref c) msg (js_get c ''status'')]"]
    show ?thesis by simp
  next
    case (Inr d)
    with step tail Cons.IH [of srv' "acc @ [Processed (claim_ref c) d (js_get c ''status'')]"]
    show ?thesis by simp
  qed
qed

lemma progress_loop_frame:
  "loading (progress_loop rs k s) = loading s
   \<and> error (progress_loop rs k s) = error s
   \<and> claims (progress_loop rs k s) = claims s
   \<and> currentClaim (progress_loop rs k s) = currentClaim s
   \<and> recentClaims (progress_loop rs k s) = recentClaims s
   \<and> stats (progress_loop rs k s) = stats s
   \<and> settings (progress_loop rs k s) = settings s"
  by (induction k) (simp_all add: record_progress_def)

lemma progress_loop_batch:
  "k \<le> length rs \<Longrightarrow>
     batchProcessing (progress_loop rs k s) =
       (batchProcessing s)
         \<lparr>progress := (if k = 0 then progress (batchProcessing s)
                        else js_times (js_divide (of_nat k) (of_nat (length rs))) 100),
          results := results (batchProcessing s) @ take k rs\<rparr>"
proof (induction k)
  case 0
  show ?case by simp
next
  case (Suc k)
  then have "k < length rs" and "k \<le> length rs"
    by simp_all
  with Suc.IH show ?case
    by (simp add: record_progress_def take_Suc_conv_app_nth)
qed

lemma processPendingClaims_done:
  assumes "api_processPendingClaims b srv = (Inr rs, srv')"
  shows "processPendingClaims b state srv =
           (Inr rs,
            state\<lparr>loading := False, error := None,
                  batchProcessing :=
                    \<lparr>inProgress = False, progress = 100, results = rs, errors = []\<rparr>\<rparr>,
            srv')"
proof -
  define s1 where "s1 = appReducer (appReducer (appReducer state START_BATCH_PROCESSING)
                 (SET_LOADING True)) CLEAR_ERROR"
  define s2 where "s2 = progress_loop rs (length rs) s1"
  have started: "batchProcessing s1 = \<lparr>inProgress = True, progress = 0, results = [], errors = []\<rparr>"
    "loading s1 = True" "error s1 = None" "claims s1 = claims state"
    "currentClaim s1 = currentClaim state" "recentClaims s1 = recentClaims state"
    "stats s1 = stats state" "settings s1 = settings state"
    by (simp_all add: s1_def)
  have batch: "batchProcessing s2 =
      \<lparr>inProgress = True,
       progress = (if length rs = 0 then 0
                   else js_times (js_divide (of_nat (length rs)) (of_nat (length rs))) 100),
       results = rs, errors = []\<rparr>"
    unfolding s2_def by (simp add: progress_loop_batch started)
  have frame: "loading s2 = True" "error s2 = None" "claims s2 = claims state"
    "currentClaim s2 = currentClaim state" "recentClaims s2 = recentClaims state"
    "stats s2 = stats state" "settings s2 = settings state"
    unfolding s2_def by (simp_all add: progress_loop_frame started)
  have "appReducer (appReducer s2 FINISH_BATCH_PROCESSING) (SET_LOADING False)
        = state\<lparr>loading := False, error := None,
                  batchProcessing :=
                    \<lparr>inProgress = False, progress = 100, results = rs, errors = []\<rparr>\<rparr>"
    by (rule app_state.equality) (simp_all add: batch frame)
  with assms show ?thesis
    by (simp add: processPendingClaims_def s2_def s1_def)
qed

lemma getClaims_limit:
  "getClaims b [''limit'' \<mapsto> JNum 100] srv = api_get_claims b [''limit'' \<mapsto> JNum 100] srv"
  by (simp add: getClaims_def js_get_def client_filter_def split: prod.split sum.split)

lemma api_processPendingClaims_listing:
  assumes "list_claims b [''limit'' \<mapsto> JNum 100] srv = (Inr cs, srv1)"
  shows "api_processPendingClaims b srv =
           (Inr (map2 outcome_of (filter is_pending cs)
                   (fst (update_in_order b (filter is_pending cs) srv1))),
            snd (update_in_order b (filter is_pending cs) srv1))"
proof -
  have "getClaims b [''limit'' \<mapsto> JNum 100] srv = (Inr cs, srv1)"
    using assms by (simp add: getClaims_limit api_get_claims_def through_interceptor_def)
  then show ?thesis
    by (simp add: api_processPendingClaims_def process_each_outcomes Let_def)
qed

lemma claim_service_lists: "list_claims claim_service params held = (Inr held, held)"
  by (simp add: claim_service_def)








text \<open>
  Claim C3, as the code has it. When the listing holds no claim whose status is Submitted
  or Pending, the gateway returns the empty list and sends no update: the service is in the
  state the listing left. The store's action has started and finished a batch job all the
  same: at its end the job is not in progress, its results and errors are empty and its
  progress is 100, whatever they were before; the loading flag and the error are cleared.
\<close>

theorem nothing_pending:
  assumes "list_claims b [''limit'' \<mapsto> JNum 100] srv = (Inr cs, srv1)"
    and "filter is_pending cs = []"
  shows "api_processPendingClaims b srv = (Inr [], srv1)
    \<and> processPendingClaims b state srv =
        (Inr [],
         state\<lparr>loading := False, error := None,
               batchProcessing :=
                 \<lparr>inProgress = False, progress = 100, results = [], errors = []\<rparr>\<rparr>,
         srv1)"
proof -
  have api: "api_processPendingClaims b srv = (Inr [], srv1)"
    using api_processPendingClaims_listing [OF assms(1)] assms(2) by simp
  from api processPendingClaims_done [OF api] show ?thesis
    by simp
qed

text \<open>From the initial state, where the progress is 0, the action ends at 100.\<close>

theorem nothing_pending_progress_counterexample:
  "progress (batchProcessing initialState) = 0
   \<and> progress (batchProcessing (fst (snd (processPendingClaims claim_service initialState settled)))) = 100"
proof -
  have "filter is_pending settled = []"
    by (simp add: settled_def held_claim_def is_pending_def js_get_def)
  then have "api_processPendingClaims claim_service settled = (Inr [], settled)"
    using api_processPendingClaims_listing [OF claim_service_lists, of settled] by simp
  then show ?thesis
    by (simp add: processPendingClaims_done initialState_def)
qed

theorem nothing_pending_witness:
  "list_claims claim_service [''limit'' \<mapsto> JNum 100] settled = (Inr settled, settled)
   \<and> filter is_pending settled = []
   \<and> api_processPendingClaims claim_service settled = (Inr [], settled)
   \<and> processPendingClaims claim_service initialState settled =
        (Inr [],
         initialState\<lparr>loading := False, error := None,
               batchProcessing :=
                 \<lparr>inProgress = False, progress = 100, results = [], errors = []\<rparr>\<rparr>,
         settled)"
proof -
  have none: "filter is_pending settled = []"
    by (simp add: settled_def held_claim_def is_pending_def js_get_def)
  from nothing_pending [OF claim_service_lists none, of initialState] none
  show ?thesis
    by (simp add: claim_service_lists)
qed

section \<open>Properties of validation\<close>

subsection \<open>The messages of \<open>validateClaim\<close>, counted\<close>

lemma validateClaim_errors:
  "errors_v (validateClaim parses c) =
     required_check c ''provider_id'' @ required_check c ''risk_id''
     @ required_check c ''patient_id'' @ required_check c ''policy_id''
     @ required_check c ''summary''
     @ uuid_check c ''provider_id'' @ uuid_check c ''risk_id''
     @ uuid_check c ''patient_id'' @ uuid_check c ''policy_id''
     @ status_check c
     @ boolean_check c ''ex_gratia_flag'' @ boolean_check c ''appeal_case_flag''
     @ date_check parses c"
  by (simp add: validateClaim_def requiredFields_def uuidFields_def booleanFields_def)

lemma validateClaim_isValid:
  "isValid (validateClaim parses c) \<longleftrightarrow> errors_v (validateClaim parses c) = []"
  by (simp add: validateClaim_def Let_def)

lemma status_message:
  "''status must be one of: '' @ join '', '' validStatuses
   = ''status must be one of: Submitted, Pending, Approved, Denied, Under Review''"
  by (simp add: validStatuses_def)

lemma count_required_check:
  "count_list (required_check c g) m =
     (if blank (js_get c g) \<and> g @ '' is required'' = m then 1 else 0)"
  by (simp add: required_check_def)

lemma count_uuid_check:
  "count_list (uuid_check c g) m =
     (if truthy (js_get c g) \<and> \<not> uuidRegex_test (to_string (js_get c g))
         \<and> g @ '' must be a valid UUID'' = m then 1 else 0)"
  by (simp add: uuid_check_def)

lemma count_status_check:
  "count_list (status_check c) m =
     (if truthy (js_get c ''status'') \<and> \<not> status_listed (js_get c ''status'')
         \<and> ''status must be one of: Submitted, Pending, Approved, Denied, Under Review'' = m
      then 1 else 0)"
  unfolding status_check_def status_message by simp

lemma count_boolean_check:
  "count_list (boolean_check c g) m =
     (if js_get c g \<noteq> JUndefined \<and> \<not> is_boolean (js_get c g)
         \<and> g @ '' must be a boolean value'' = m then 1 else 0)"
  by (simp add: boolean_check_def)

lemma count_date_check:
  "count_list (date_check parses c) m =
     (if truthy (js_get c ''submission_date'') \<and> \<not> parses (js_get c ''submission_date'')
         \<and> ''submission_date must be a valid ISO date string'' = m then 1 else 0)"
  by (simp add: date_check_def)

lemmas count_checks = count_required_check count_uuid_check count_status_check
  count_boolean_check count_date_check


lemma count_required_each:
  "count_list (errors_v (validateClaim parses c)) ''provider_id is required''
     = (if blank (js_get c ''provider_id'') then 1 else 0)"
  "count_list (errors_v (validateClaim parses c)) ''risk_id is required''
     = (if blank (js_get c ''risk_id'') then 1 else 0)"
  "count_list (errors_v (validateClaim parses c)) ''patient_id is required''
     = (if blank (js_get c ''patient_id'') then 1 else 0)"
  "count_list (errors_v (validateClaim parses c)) ''policy_id is required''
     = (if blank (js_get c ''policy_id'') then 1 else 0)"
  "count_list (errors_v (validateClaim parses c)) ''summary is required''
     = (if blank (js_get c ''summary'') then 1 else 0)"
  by (simp_all add: validateClaim_errors count_checks)

lemma count_required_message:
  assumes "f \<in> set requiredFields"
  shows "count_list (errors_v (validateClaim parses c)) (f @ '' is required'')
         = (if blank (js_get c f) then 1 else 0)"
proof -
  from assms have "f = ''provider_id'' \<or> f = ''risk_id'' \<or> f = ''patient_id''
      \<or> f = ''policy_id'' \<or> f = ''summary''"
    by (simp add: requiredFields_def)
  then show ?thesis
    using count_required_each [of parses c] by (elim disjE) simp_all
qed

lemma count_uuid_each:
  "count_list (errors_v (validateClaim parses c)) ''provider_id must be a valid UUID''
     = (if truthy (js_get c ''provider_id'')
           \<and> \<not> uuidRegex_test (to_string (js_get c ''provider_id'')) then 1 else 0)"
  "count_list (errors_v (validateClaim parses c)) ''risk_id must be a valid UUID''
     = (if truthy (js_get c ''risk_id'')
           \<and> \<not> uuidRegex_test (to_string (js_get c ''risk_id'')) then 1 else 0)"
  "count_list (errors_v (validateClaim parses c)) ''patient_id must be a valid UUID''
     = (if truthy (js_get c ''patient_id'')
           \<and> \<not> uuidRegex_test (to_string (js_get c ''patient_id'')) then 1 else 0)"
  "count_list (errors_v (validateClaim parses c)) ''policy_id must be a valid UUID''
     = (if truthy (js_get c ''policy_id'')
           \<and> \<not> uuidRegex_test (to_string (js_get c ''policy_id'')) then 1 else 0)"
  by (simp_all add: validateClaim_errors count_checks)

lemma count_uuid_message:
  assumes "f \<in> set uuidFields"
  shows "count_list (errors_v (validateClaim parses c)) (f @ '' must be a valid UUID'')
         = (if truthy (js_get c f) \<and> \<not> uuidRegex_test (to_string (js_get c f)) then 1 else 0)"
proof -
  from assms have "f = ''provider_id'' \<or> f = ''risk_id'' \<or> f = ''patient_id''
      \<or> f = ''policy_id''"
    by (simp add: uuidFields_def)
  then show ?thesis
    using count_uuid_each [of parses c] by (elim disjE) simp_all
qed

lemma count_status_message:
  "count_list (errors_v (validateClaim parses c))
     (''status must be one of: '' @ join '', '' validStatuses)
   = (if truthy (js_get c ''status'') \<and> \<not> status_listed (js_get c ''status'') then 1 else 0)"
  unfolding status_message by (simp add: validateClaim_errors count_checks)

lemma count_boolean_each:
  "count_list (errors_v (validateClaim parses c)) ''ex_gratia_flag must be a boolean value''
     = (if js_get c ''ex_gratia_flag'' \<noteq> JUndefined
           \<and> \<not> is_boolean (js_get c ''ex_gratia_flag'') then 1 else 0)"
  "count_list (errors_v (validateClaim parses c)) ''appeal_case_flag must be a boolean value''
     = (if js_get c ''appeal_case_flag'' \<noteq> JUndefined
           \<and> \<not> is_boolean (js_get c ''appeal_case_flag'') then 1 else 0)"
  by (simp_all add: validateClaim_errors count_checks)

lemma count_boolean_message:
  assumes "f \<in> set booleanFields"
  shows "count_list (errors_v (validateClaim parses c)) (f @ '' must be a boolean value'')
         = (if js_get c f \<noteq> JUndefined \<and> \<not> is_boolean (js_get c f) then 1 else 0)"
proof -
  from assms have "f = ''ex_gratia_flag'' \<or> f = ''appeal_case_flag''"
    by (simp add: booleanFields_def)
  then show ?thesis
    using count_boolean_each [of parses c] by (elim disjE) simp_all
qed

lemma count_date_message:
  "count_list (errors_v (validateClaim parses c))
     ''submission_date must be a valid ISO date string''
   = (if truthy (js_get c ''submission_date'') \<and> \<not> parses (js_get c ''submission_date'')
      then 1 else 0)"
  by (simp add: validateClaim_errors count_checks)

lemma in_set_count: "m \<in> set xs \<longleftrightarrow> 0 < count_list xs m"
  by (induction xs) auto

lemma blank_required_invalid:
  assumes "f \<in> set requiredFields" and "blank (js_get c f)"
  shows "\<not> isValid (validateClaim parses c)"
proof
  assume "isValid (validateClaim parses c)"
  then have "errors_v (validateClaim parses c) = []"
    by (simp add: validateClaim_isValid)
  then have "count_list (errors_v (validateClaim parses c)) (f @ '' is required'') = 0"
    by simp
  with count_required_message [OF assms(1), of parses c] assms(2) show False
    by simp
qed

subsection \<open>The report of \<open>validateForm\<close>, field by field\<close>

lemma field_report_pair:
  "field_report d (a, config) =
     (if validateField a (js_get d a) config = [] then []
      else [(a, validateField a (js_get d a) config)])"
  by (simp add: field_report_def Let_def)

lemma field_report_absent:
  "n \<notin> fst ` set fs \<Longrightarrow> map_of (concat (map (field_report d) fs)) n = None"
proof (induction fs)
  case Nil
  show ?case by simp
next
  case (Cons e rest)
  obtain a config where e: "e = (a, config)"
    by (cases e)
  with Cons.prems have "a \<noteq> n" and "n \<notin> fst ` set rest"
    by auto
  with Cons.IH show ?case
    unfolding e by (simp add: field_report_pair)
qed

lemma field_report_lookup:
  assumes "distinct (map fst fs)" and "(n, config) \<in> set fs"
  shows "map_of (concat (map (field_report d) fs)) n =
           (if validateField n (js_get d n) config = [] then None
            else Some (validateField n (js_get d n) config))"
  using assms
proof (induction fs)
  case Nil
  then show ?case by simp
next
  case (Cons e rest)
  obtain a config' where e: "e = (a, config')"
    by (cases e)
  show ?case
  proof (cases "e = (n, config)")
    case True
    with Cons.prems have "n \<notin> fst ` set rest"
      by auto
    then have "map_of (concat (map (field_report d) rest)) n = None"
      by (rule field_report_absent)
    with True show ?thesis
      by (simp add: field_report_pair)
  next
    case False
    with Cons.prems have later: "(n, config) \<in> set rest" and rest: "distinct (map fst rest)"
      by auto
    from Cons.prems later e have "a \<noteq> n"
      by (auto simp: image_iff)
    with Cons.IH [OF rest later] show ?thesis
      unfolding e by (simp add: field_report_pair)
  qed
qed

lemma form_fields_distinct: "distinct (map fst CLAIM_FORM_FIELDS)"
  by (simp add: CLAIM_FORM_FIELDS_def)

lemma validateForm_lookup:
  assumes "(n, config) \<in> set CLAIM_FORM_FIELDS"
  shows "map_of (errors_f (validateForm d)) n =
           (if validateField n (js_get d n) config = [] then None
            else Some (validateField n (js_get d n) config))"
  using field_report_lookup [OF form_fields_distinct assms]
  by (simp add: validateForm_def Let_def)

lemma validateForm_valid_field:
  assumes "isValid_f (validateForm d)" and "(n, config) \<in> set CLAIM_FORM_FIELDS"
  shows "validateField n (js_get d n) config = []"
proof -
  from assms(1) have "errors_f (validateForm d) = []"
    by (simp add: validateForm_def Let_def)
  then have "map_of (errors_f (validateForm d)) n = None"
    by simp
  with validateForm_lookup [OF assms(2), of d] show ?thesis
    by (simp split: if_splits)
qed

lemma summary_in_form: "(''summary'', summary_field) \<in> set CLAIM_FORM_FIELDS"
  by (simp add: CLAIM_FORM_FIELDS_def)

lemma summary_messages:
  "validateField ''summary'' (JStr s) summary_field =
     (if blank (JStr s) then [''Claim Summary is required'']
      else (if length s < 10 then [''Claim Summary must be at least 10 characters''] else [])
         @ (if 1000 < length s then [''Claim Summary must not exceed 1000 characters''] else []))"
proof -
  have "string_of_nat 10 = ''10''" "string_of_nat 1000 = ''1000''"
    by (simp_all add: string_of_nat.simps)
  then show ?thesis
    by (simp add: validateField_def summary_field_def pattern_errors_def minLength_errors_def
        maxLength_errors_def)
qed

subsection \<open>Required fields and independent checks\<close>

text \<open>
  Claim C9, as the code has it. \<open>validateClaim\<close> reports a required field exactly once as
  required when its value is missing or blank, and then the claim is invalid. Every other
  message is present exactly when the check of its own field fails, whatever the other
  fields hold: the format message of an identifier, the status message, the message of a
  flag and the date message. A missing or empty identifier is not tested against the
  pattern. In \<open>validateForm\<close> the errors of a field are those \<open>validateField\<close> finds for
  that field alone, and a required field that is missing or blank has the single error
  that it is required.
\<close>

theorem validation_accumulates:
  "(f \<in> set requiredFields \<longrightarrow>
      count_list (errors_v (validateClaim parses c)) (f @ '' is required'')
        = (if blank (js_get c f) then 1 else 0)
      \<and> (blank (js_get c f) \<longrightarrow> \<not> isValid (validateClaim parses c)))
   \<and> (f \<in> set uuidFields \<longrightarrow>
        (f @ '' must be a valid UUID'' \<in> set (errors_v (validateClaim parses c))
           \<longleftrightarrow> truthy (js_get c f) \<and> \<not> uuidRegex_test (to_string (js_get c f)))
        \<and> (\<not> truthy (js_get c f) \<longrightarrow>
             f @ '' must be a valid UUID'' \<notin> set (errors_v (validateClaim parses c))))
   \<and> (''status must be one of: '' @ join '', '' validStatuses
          \<in> set (errors_v (validateClaim parses c))
        \<longleftrightarrow> truthy (js_get c ''status'') \<and> \<not> status_listed (js_get c ''status''))
   \<and> (f \<in> set booleanFields \<longrightarrow>
        (f @ '' must be a boolean value'' \<in> set (errors_v (validateClaim parses c))
           \<longleftrightarrow> js_get c f \<noteq> JUndefined \<and> \<not> is_boolean (js_get c f)))
   \<and> (''submission_date must be a valid ISO date string''
          \<in> set (errors_v (validateClaim parses c))
        \<longleftrightarrow> truthy (js_get c ''submission_date'') \<and> \<not> parses (js_get c ''submission_date''))
   \<and> ((n, config) \<in> set CLAIM_FORM_FIELDS \<longrightarrow>
        map_of (errors_f (validateForm d)) n =
          (if validateField n (js_get d n) config = [] then None
           else Some (validateField n (js_get d n) config))
        \<and> (required config \<and> blank (js_get d n) \<longrightarrow>
             map_of (errors_f (validateForm d)) n = Some [label config @ '' is required'']
             \<and> \<not> isValid_f (validateForm d)))"
proof (intro conjI impI)
  assume f: "f \<in> set requiredFields"
  show "count_list (errors_v (validateClaim parses c)) (f @ '' is required'')
        = (if blank (js_get c f) then 1 else 0)"
    using f by (rule count_required_message)
  assume "blank (js_get c f)"
  with f show "\<not> isValid (validateClaim parses c)"
    by (rule blank_required_invalid)
next
  assume f: "f \<in> set uuidFields"
  show "f @ '' must be a valid UUID'' \<in> set (errors_v (validateClaim parses c))
        \<longleftrightarrow> truthy (js_get c f) \<and> \<not> uuidRegex_test (to_string (js_get c f))"
    by (simp add: in_set_count count_uuid_message [OF f])
  assume "\<not> truthy (js_get c f)"
  then show "f @ '' must be a valid UUID'' \<notin> set (errors_v (validateClaim parses c))"
    by (simp add: in_set_count count_uuid_message [OF f])
next
  show "''status must be one of: '' @ join '', '' validStatuses
          \<in> set (errors_v (validateClaim parses c))
        \<longleftrightarrow> truthy (js_get c ''status'') \<and> \<not> status_listed (js_get c ''status'')"
    by (simp only: in_set_count count_status_message) simp
next
  assume f: "f \<in> set booleanFields"
  show "f @ '' must be a boolean value'' \<in> set (errors_v (validateClaim parses c))
        \<longleftrightarrow> js_get c f \<noteq> JUndefined \<and> \<not> is_boolean (js_get c f)"
    by (simp add: in_set_count count_boolean_message [OF f])
next
  show "''submission_date must be a valid ISO date string''
          \<in> set (errors_v (validateClaim parses c))
        \<longleftrightarrow> truthy (js_get c ''submission_date'') \<and> \<not> parses (js_get c ''submission_date'')"
    by (simp add: in_set_count count_date_message)
next
  assume n: "(n, config) \<in> set CLAIM_FORM_FIELDS"
  show lookup: "map_of (errors_f (validateForm d)) n =
          (if validateField n (js_get d n) config = [] then None
           else Some (validateField n (js_get d n) config))"
    using n by (rule validateForm_lookup)
  assume req: "required config \<and> blank (js_get d n)"
  then have only: "validateField n (js_get d n) config = [label config @ '' is required'']"
    by (simp add: validateField_def)
  with lookup show "map_of (errors_f (validateForm d)) n = Some [label config @ '' is required'']"
    by simp
  from only validateForm_valid_field [OF _ n, of d] show "\<not> isValid_f (validateForm d)"
    by auto
qed

text \<open>
  An identifier of two blanks is not empty, so \<open>validateClaim\<close> tests it against the
  pattern after it has reported it as required: the field has two errors.
\<close>

theorem blank_identifier_counterexample:
  "js_get blank_provider ''provider_id'' = JStr ''  ''
   \<and> errors_v (validateClaim any_string blank_provider)
       = [''provider_id is required'', ''provider_id must be a valid UUID'']"
  by code_simp

theorem validation_accumulates_witness:
  "''provider_id'' \<in> set requiredFields
   \<and> blank (js_get without_ids ''provider_id'')
   \<and> count_list (errors_v (validateClaim any_string without_ids)) ''provider_id is required'' = 1
   \<and> \<not> isValid (validateClaim any_string without_ids)
   \<and> ''provider_id must be a valid UUID'' \<notin> set (errors_v (validateClaim any_string without_ids))
   \<and> errors_v (validateClaim any_string without_ids)
       = [''provider_id is required'', ''summary is required'']
   \<and> map_of (errors_f (validateForm without_ids)) ''summary'' = Some [''Claim Summary is required'']"
proof -
  have req: "''provider_id'' \<in> set requiredFields" and uu: "''provider_id'' \<in> set uuidFields"
    by (simp_all add: requiredFields_def uuidFields_def)
  have missing: "blank (js_get without_ids ''provider_id'')"
    "\<not> truthy (js_get without_ids ''provider_id'')"
    "blank (js_get without_ids ''summary'')"
    by (simp_all add: without_ids_def js_get_def)
  have listed: "errors_v (validateClaim any_string without_ids)
       = [''provider_id is required'', ''summary is required'']"
    by code_simp
  have form: "(''summary'', summary_field) \<in> set CLAIM_FORM_FIELDS" "required summary_field"
    "label summary_field = ''Claim Summary''"
    by (simp_all add: CLAIM_FORM_FIELDS_def summary_field_def)
  note at = validation_accumulates
    [of "''provider_id''" any_string without_ids "''summary''" summary_field without_ids]
  from at req have "count_list (errors_v (validateClaim any_string without_ids))
        (''provider_id'' @ '' is required'')
      = (if blank (js_get without_ids ''provider_id'') then 1 else 0)"
    and "blank (js_get without_ids ''provider_id'')
      \<longrightarrow> \<not> isValid (validateClaim any_string without_ids)"
    by blast+
  with missing have required_once:
    "count_list (errors_v (validateClaim any_string without_ids)) ''provider_id is required'' = 1"
    and invalid: "\<not> isValid (validateClaim any_string without_ids)"
    by simp_all
  from at uu have "\<not> truthy (js_get without_ids ''provider_id'')
      \<longrightarrow> ''provider_id'' @ '' must be a valid UUID''
            \<notin> set (errors_v (validateClaim any_string without_ids))"
    by blast
  with missing have skipped:
    "''provider_id must be a valid UUID'' \<notin> set (errors_v (validateClaim any_string without_ids))"
    by simp
  from at form(1) have "required summary_field \<and> blank (js_get without_ids ''summary'')
      \<longrightarrow> map_of (errors_f (validateForm without_ids)) ''summary''
            = Some [label summary_field @ '' is required'']"
    by blast
  with missing form have in_form:
    "map_of (errors_f (validateForm without_ids)) ''summary'' = Some [''Claim Summary is required'']"
    by simp
  from req missing(1) required_once invalid skipped listed in_form show ?thesis
    by (intro conjI)
qed

subsection \<open>The length of the summary\<close>

text \<open>
  Claim C4, as the code has it. The form's validation of the field \<open>summary\<close> rejects a
  summary of 9 characters and one of 1001, and raises neither length error for a summary
  of 10 or of 1000 characters, which it accepts unless it is blank. It accepts a string
  exactly when it is not blank and its length is between 10 and 1000, so a form that is
  valid holds no summary string of another length.
\<close>

theorem summary_length_in_form:
  "(length s = 9 \<or> length s = 1001 \<longrightarrow>
      validateField ''summary'' (JStr s) summary_field \<noteq> []
      \<and> \<not> isValid_f (validateForm (d(''summary'' \<mapsto> JStr s))))
   \<and> (length s = 10 \<or> length s = 1000 \<longrightarrow>
        ''Claim Summary must be at least 10 characters''
          \<notin> set (validateField ''summary'' (JStr s) summary_field)
        \<and> ''Claim Summary must not exceed 1000 characters''
          \<notin> set (validateField ''summary'' (JStr s) summary_field)
        \<and> (\<not> trim_is_empty s \<longrightarrow> validateField ''summary'' (JStr s) summary_field = []))
   \<and> (validateField ''summary'' (JStr s) summary_field = []
        \<longleftrightarrow> \<not> blank (JStr s) \<and> 10 \<le> length s \<and> length s \<le> 1000)
   \<and> (isValid_f (validateForm d) \<and> js_get d ''summary'' = JStr s \<longrightarrow>
        10 \<le> length s \<and> length s \<le> 1000)"
proof (intro conjI impI)
  show accepted: "validateField ''summary'' (JStr s) summary_field = []
        \<longleftrightarrow> \<not> blank (JStr s) \<and> 10 \<le> length s \<and> length s \<le> 1000"
    by (auto simp: summary_messages)
  {
    assume "length s = 9 \<or> length s = 1001"
    with accepted show bad: "validateField ''summary'' (JStr s) summary_field \<noteq> []"
      by auto
    have "js_get (d(''summary'' \<mapsto> JStr s)) ''summary'' = JStr s"
      by (simp add: js_get_def)
    with bad validateForm_valid_field [OF _ summary_in_form, of "d(''summary'' \<mapsto> JStr s)"]
    show "\<not> isValid_f (validateForm (d(''summary'' \<mapsto> JStr s)))"
      by auto
  }
  {
    assume edge: "length s = 10 \<or> length s = 1000"
    then show "''Claim Summary must be at least 10 characters''
          \<notin> set (validateField ''summary'' (JStr s) summary_field)"
      and "''Claim Summary must not exceed 1000 characters''
          \<notin> set (validateField ''summary'' (JStr s) summary_field)"
      by (auto simp: summary_messages)
    assume "\<not> trim_is_empty s"
    with edge show "validateField ''summary'' (JStr s) summary_field = []"
      by (auto simp: summary_messages)
  }
  {
    assume "isValid_f (validateForm d) \<and> js_get d ''summary'' = JStr s"
    with validateForm_valid_field [OF _ summary_in_form, of d]
    have "validateField ''summary'' (JStr s) summary_field = []"
      by simp
    with accepted show "10 \<le> length s" and "length s \<le> 1000"
      by simp_all
  }
qed

text \<open>
  \<open>validateClaim\<close> has no check of the length: the sample claim with a summary of nine
  characters is valid for it.
\<close>

theorem validateClaim_short_summary_counterexample:
  "js_get short_summary ''summary'' = JStr ''Too short''
   \<and> length ''Too short'' = 9
   \<and> validateClaim any_string short_summary = \<lparr>isValid = True, errors_v = []\<rparr>"
  by code_simp

theorem summary_length_in_form_witness:
  "length ''Too short'' = 9
   \<and> validateField ''summary'' (JStr ''Too short'') summary_field \<noteq> []
   \<and> \<not> isValid_f (validateForm short_summary)
   \<and> length (replicate 1001 CHR ''a'') = 1001
   \<and> validateField ''summary'' (JStr (replicate 1001 CHR ''a'')) summary_field \<noteq> []
   \<and> length ''Ten chars!'' = 10
   \<and> validateField ''summary'' (JStr ''Ten chars!'') summary_field = []
   \<and> length (replicate 1000 CHR ''a'') = 1000
   \<and> validateField ''summary'' (JStr (replicate 1000 CHR ''a'')) summary_field = []"
proof -
  have short: "length ''Too short'' = 9 \<or> length ''Too short'' = 1001"
    and long: "length (replicate 1001 CHR ''a'') = 9 \<or> length (replicate 1001 CHR ''a'') = 1001"
    and low: "length ''Ten chars!'' = 10 \<or> length ''Ten chars!'' = 1000"
    and high: "length (replicate 1000 CHR ''a'') = 10 \<or> length (replicate 1000 CHR ''a'') = 1000"
    by simp_all
  have solid: "\<not> trim_is_empty ''Ten chars!''" "\<not> trim_is_empty (replicate 1000 CHR ''a'')"
    by (simp_all add: trim_is_empty_def is_space_def list_all_iff)
  have same: "(getSampleClaim noon)(''summary'' \<mapsto> JStr ''Too short'') = short_summary"
    by (simp add: short_summary_def)
  from summary_length_in_form [of "''Too short''" "getSampleClaim noon"] short same
  have a: "validateField ''summary'' (JStr ''Too short'') summary_field \<noteq> []"
    "\<not> isValid_f (validateForm short_summary)"
    by simp_all
  from summary_length_in_form [of "replicate 1001 CHR ''a''" "getSampleClaim noon"] long
  have b: "validateField ''summary'' (JStr (replicate 1001 CHR ''a'')) summary_field \<noteq> []"
    by blast
  from summary_length_in_form [of "''Ten chars!''" "getSampleClaim noon"] low solid
  have c: "validateField ''summary'' (JStr ''Ten chars!'') summary_field = []"
    by blast
  from summary_length_in_form [of "replicate 1000 CHR ''a''" "getSampleClaim noon"] high solid
  have e: "validateField ''summary'' (JStr (replicate 1000 CHR ''a'')) summary_field = []"
    by blast
  from a b c e show ?thesis
    by simp
qed

section \<open>Properties of batch submission\<close>

subsection \<open>Validation before any request\<close>

lemma concat_map_if:
  "concat (map (\<lambda>x. if P x then [g x] else []) xs) = map g (filter P xs)"
  by (induction xs) simp_all

lemma validationErrors_lines:
  "validationErrors parses cs =
     map (\<lambda>ic. ''Claim '' @ string_of_nat (fst ic + 1) @ '': ''
                  @ join '', '' (errors_v (validateClaim parses (snd ic))))
       (filter (\<lambda>ic. \<not> isValid (validateClaim parses (snd ic))) (enumerate 0 cs))"
proof -
  have "validation_line parses =
          (\<lambda>ic. if \<not> isValid (validateClaim parses (snd ic))
                then [''Claim '' @ string_of_nat (fst ic + 1) @ '': ''
                       @ join '', '' (errors_v (validateClaim parses (snd ic)))]
                else [])"
    by (rule ext) (simp add: validation_line_def Let_def)
  then show ?thesis
    by (simp only: validationErrors_def concat_map_if)
qed

lemma validationErrors_empty:
  "validationErrors parses cs = [] \<longleftrightarrow> (\<forall>c \<in> set cs. isValid (validateClaim parses c))"
proof -
  have "validationErrors parses cs = []
        \<longleftrightarrow> (\<forall>ic \<in> set (enumerate 0 cs). isValid (validateClaim parses (snd ic)))"
    by (simp add: validationErrors_lines filter_empty_conv)
  also have "\<dots> \<longleftrightarrow> (\<forall>c \<in> snd ` set (enumerate 0 cs). isValid (validateClaim parses c))"
    by blast
  also have "snd ` set (enumerate 0 cs) = set cs"
    by (metis map_snd_enumerate set_map)
  finally show ?thesis .
qed

lemma validationErrors_member:
  assumes "i < length cs" and "\<not> isValid (validateClaim parses (cs ! i))"
  shows "''Claim '' @ string_of_nat (i + 1) @ '': ''
           @ join '', '' (errors_v (validateClaim parses (cs ! i)))
         \<in> set (validationErrors parses cs)"
proof -
  from assms(1) have "(i, cs ! i) \<in> set (enumerate 0 cs)"
    by (simp add: in_set_enumerate_eq)
  with assms(2) have "(i, cs ! i)
      \<in> set (filter (\<lambda>ic. \<not> isValid (validateClaim parses (snd ic))) (enumerate 0 cs))"
    by simp
  then have "(\<lambda>ic. ''Claim '' @ string_of_nat (fst ic + 1) @ '': ''
                  @ join '', '' (errors_v (validateClaim parses (snd ic)))) (i, cs ! i)
      \<in> set (validationErrors parses cs)"
    unfolding validationErrors_lines set_map by (rule imageI)
  then show ?thesis
    by simp
qed

text \<open>
  Claim C6. If a claim of the batch fails \<open>validateClaim\<close>, then \<open>submitBatchClaims\<close> of
  the hook ends with the error \<open>Validation failed:\<close> followed by one line per failing
  claim, in the order of the batch, each with the claim's number and all its validation
  errors. Whatever the service would do, it is left in its state, and the hook's list of
  claims is as before; the hook records the error and is no longer loading.
\<close>

theorem invalid_batch_aborted:
  assumes "\<exists>c \<in> set cs. \<not> isValid (validateClaim parses c)"
  shows "submitBatchClaims parses b clock cs h srv =
           (Inl (''Validation failed:'' @ [CHR 0x0A] @ join [CHR 0x0A] (validationErrors parses cs)),
            h\<lparr>loading_h := False,
              error_h := Some (''Validation failed:'' @ [CHR 0x0A]
                                @ join [CHR 0x0A] (validationErrors parses cs))\<rparr>,
            srv)
    \<and> claims_h (fst (snd (submitBatchClaims parses b clock cs h srv))) = claims_h h
    \<and> snd (snd (submitBatchClaims parses b clock cs h srv)) = srv
    \<and> validationErrors parses cs =
        map (\<lambda>ic. ''Claim '' @ string_of_nat (fst ic + 1) @ '': ''
                     @ join '', '' (errors_v (validateClaim parses (snd ic))))
          (filter (\<lambda>ic. \<not> isValid (validateClaim parses (snd ic))) (enumerate 0 cs))
    \<and> (\<forall>i < length cs. \<not> isValid (validateClaim parses (cs ! i)) \<longrightarrow>
          ''Claim '' @ string_of_nat (i + 1) @ '': ''
            @ join '', '' (errors_v (validateClaim parses (cs ! i)))
          \<in> set (validationErrors parses cs))"
proof -
  from assms have "validationErrors parses cs \<noteq> []"
    by (simp add: validationErrors_empty)
  then have aborted: "submitBatchClaims parses b clock cs h srv =
           (Inl (''Validation failed:'' @ [CHR 0x0A] @ join [CHR 0x0A] (validationErrors parses cs)),
            h\<lparr>loading_h := False,
              error_h := Some (''Validation failed:'' @ [CHR 0x0A]
                                @ join [CHR 0x0A] (validationErrors parses cs))\<rparr>,
            srv)"
    by (simp add: submitBatchClaims_def Let_def)
  then have kept: "claims_h (fst (snd (submitBatchClaims parses b clock cs h srv))) = claims_h h"
    and untouched: "snd (snd (submitBatchClaims parses b clock cs h srv)) = srv"
    by simp_all
  from aborted kept untouched validationErrors_lines [of parses cs] validationErrors_member [of _ cs parses]
  show ?thesis
    by (intro conjI allI impI)
qed

theorem invalid_batch_aborted_witness:
  "blank_provider \<in> set flawed_claims
   \<and> \<not> isValid (validateClaim any_string blank_provider)
   \<and> fst (submitBatchClaims any_string claim_service (\<lambda>i. noon) flawed_claims idle_hook settled)
       = Inl (''Validation failed:'' @ [CHR 0x0A]
              @ ''Claim 2: provider_id is required, provider_id must be a valid UUID'' @ [CHR 0x0A]
              @ ''Claim 3: provider_id is required, summary is required'')
   \<and> claims_h (fst (snd (submitBatchClaims any_string claim_service (\<lambda>i. noon) flawed_claims
                            idle_hook settled))) = []
   \<and> snd (snd (submitBatchClaims any_string claim_service (\<lambda>i. noon) flawed_claims
                  idle_hook settled)) = settled"
proof -
  have member: "blank_provider \<in> set flawed_claims"
    by (simp add: flawed_claims_def)
  have invalid: "\<not> isValid (validateClaim any_string blank_provider)"
    by code_simp
  from member invalid have failing: "\<exists>c \<in> set flawed_claims. \<not> isValid (validateClaim any_string c)"
    by blast
  have lines: "validationErrors any_string flawed_claims
      = [''Claim 2: provider_id is required, provider_id must be a valid UUID'',
         ''Claim 3: provider_id is required, summary is required'']"
    by code_simp
  from invalid_batch_aborted [OF failing, of claim_service "\<lambda>i. noon" idle_hook settled]
  have "submitBatchClaims any_string claim_service (\<lambda>i. noon) flawed_claims idle_hook settled =
           (Inl (''Validation failed:'' @ [CHR 0x0A]
                  @ join [CHR 0x0A] (validationErrors any_string flawed_claims)),
            idle_hook\<lparr>loading_h := False,
              error_h := Some (''Validation failed:'' @ [CHR 0x0A]
                                @ join [CHR 0x0A] (validationErrors any_string flawed_claims))\<rparr>,
            settled)"
    by (rule conjunct1)
  with member invalid show ?thesis
    by (simp add: lines idle_hook_def)
qed

subsection \<open>One request per valid claim\<close>

lemma falsy_blank: "\<not> truthy v \<Longrightarrow> blank v"
  by (cases v) simp_all

lemma valid_has_required:
  assumes "isValid (validateClaim parses c)"
  shows "filter (\<lambda>f. \<not> truthy (js_get c f)) requiredFields = []"
proof -
  have "truthy (js_get c f)" if "f \<in> set requiredFields" for f
  proof (rule ccontr)
    assume "\<not> truthy (js_get c f)"
    then have "blank (js_get c f)"
      by (rule falsy_blank)
    with that have "\<not> isValid (validateClaim parses c)"
      by (rule blank_required_invalid)
    with assms show False by simp
  qed
  then show ?thesis
    by (simp add: filter_empty_conv)
qed

lemma submitClaim_valid:
  assumes "isValid (validateClaim parses c)"
  shows "submitClaim b now c srv = api_post_claim b (completeClaimData now c) srv"
  using valid_has_required [OF assms] by (simp add: submitClaim_def)

lemma post_in_order_length: "length (fst (post_in_order b clock cs i srv)) = length cs"
proof (induction cs arbitrary: i srv)
  case Nil
  show ?case by simp
next
  case (Cons c rest)
  obtain r srv' where step: "api_post_claim b (completeClaimData (clock i) c) srv = (r, srv')"
    by (cases "api_post_claim b (completeClaimData (clock i) c) srv")
  obtain rs srv'' where tail: "post_in_order b clock rest (i + 1) srv' = (rs, srv'')"
    by (cases "post_in_order b clock rest (i + 1) srv'")
  from Cons.IH [of "i + 1" srv'] tail have "length rs = length rest"
    by simp
  with step tail show ?case
    by simp
qed

lemma submit_each_answers:
  assumes "\<forall>c \<in> set cs. isValid (validateClaim parses c)"
  shows "submit_each b clock cs i srv oks fails =
           (oks @ ok_items i (fst (post_in_order b clock cs i srv)),
            fails @ failed_items i cs (fst (post_in_order b clock cs i srv)),
            snd (post_in_order b clock cs i srv))"
  using assms
proof (induction cs arbitrary: i srv oks fails)
  case Nil
  show ?case by simp
next
  case (Cons c rest)
  from Cons.prems have valid: "isValid (validateClaim parses c)"
    and later: "\<forall>c \<in> set rest. isValid (validateClaim parses c)"
    by simp_all
  obtain r srv' where step: "api_post_claim b (completeClaimData (clock i) c) srv = (r, srv')"
    by (cases "api_post_claim b (completeClaimData (clock i) c) srv")
  obtain rs srv'' where tail: "post_in_order b clock rest (i + 1) srv' = (rs, srv'')"
    by (cases "post_in_order b clock rest (i + 1) srv'")
  from step have sent: "submitClaim b (clock i) c srv = (r, srv')"
    by (simp add: submitClaim_valid [OF valid])
  show ?case
  proof (cases r)
    case (Inl msg)
    with sent step tail Cons.IH [OF later, of "i + 1" srv' oks "fails @ [Item_failed i msg c]"]
    show ?thesis by simp
  next
    case (Inr d)
    with sent step tail Cons.IH [OF later, of "i + 1" srv' "oks @ [Item_ok i d]" fails]
    show ?thesis by simp
  qed
qed

lemma ok_items_length: "length (ok_items i rs) = length (filter (\<lambda>r. \<not> isl r) rs)"
  by (induction i rs rule: ok_items.induct) simp_all

lemma failed_items_length:
  "length cs = length rs \<Longrightarrow> length (failed_items i cs rs) = length (filter isl rs)"
proof (induction cs arbitrary: i rs)
  case Nil
  then show ?case by simp
next
  case (Cons c cs)
  then obtain r rest where rs: "rs = r # rest"
    by (cases rs) auto
  with Cons show ?case
    by (cases r) simp_all
qed

lemma ok_items_member:
  "Item_ok j d \<in> set (ok_items i rs) \<longleftrightarrow> i \<le> j \<and> j < i + length rs \<and> rs ! (j - i) = Inr d"
proof (induction i rs rule: ok_items.induct)
  case (1 i)
  show ?case by simp
next
  case (2 i d' rs)
  show ?case
  proof (cases "j = i")
    case True
    then show ?thesis using 2 by auto
  next
    case False
    then have "i \<le> j \<longleftrightarrow> i + 1 \<le> j"
      by auto
    moreover have "i + 1 \<le> j \<Longrightarrow> (Inr d' # rs) ! (j - i) = rs ! (j - (i + 1))"
      by (simp add: nth_Cons')
    ultimately show ?thesis
      using 2 False by auto
  qed
next
  case (3 i msg rs)
  show ?case
  proof (cases "j = i")
    case True
    then show ?thesis using 3 by auto
  next
    case False
    then have "i \<le> j \<longleftrightarrow> i + 1 \<le> j"
      by auto
    moreover have "i + 1 \<le> j \<Longrightarrow> (Inl msg # rs) ! (j - i) = rs ! (j - (i + 1))"
      by (simp add: nth_Cons')
    ultimately show ?thesis
      using 3 False by auto
  qed
qed

lemma failed_items_member:
  "length cs = length rs \<Longrightarrow>
     Item_failed j msg c \<in> set (failed_items i cs rs)
       \<longleftrightarrow> i \<le> j \<and> j < i + length rs \<and> rs ! (j - i) = Inl msg \<and> c = cs ! (j - i)"
proof (induction cs arbitrary: i rs)
  case Nil
  then show ?case by simp
next
  case (Cons c' cs)
  then obtain r rest where rs: "rs = r # rest" and len: "length cs = length rest"
    by (cases rs) auto
  note IH = Cons.IH [OF len, of "i + 1"]
  show ?case
  proof (cases "j = i")
    case True
    then show ?thesis
      using IH rs by (cases r) auto
  next
    case False
    then have le: "i \<le> j \<longleftrightarrow> i + 1 \<le> j"
      by auto
    have shift: "i + 1 \<le> j \<Longrightarrow> (r # rest) ! (j - i) = rest ! (j - (i + 1))
        \<and> (c' # cs) ! (j - i) = cs ! (j - (i + 1))"
      by (simp add: nth_Cons')
    show ?thesis
      using IH rs False le shift by (cases r) auto
  qed
qed

text \<open>
  Claim C7, as the code has it. For a batch that is not empty and whose claims all pass
  \<open>validateClaim\<close>, the hook returns the summary of the gateway: every claim is posted
  once, in the order of the batch and whatever the answers to the earlier ones; the total
  is the length of the batch, \<open>successful\<close> and \<open>failed\<close> count the accepted and the
  refused claims and add up to the total; an entry with index \<open>j\<close> is among the results
  exactly when claim \<open>j\<close> was accepted with that answer, and among the errors exactly
  when claim \<open>j\<close> was refused with that message, and then it carries claim \<open>j\<close>. When
  of three claims only the second is refused, \<open>successful\<close> is 2, \<open>failed\<close> is 1, the
  results have the indices 0 and 2 and the one error has index 1.
\<close>

theorem valid_batch_submitted:
  assumes "cs \<noteq> []" and "\<forall>c \<in> set cs. isValid (validateClaim parses c)"
  shows "submitBatchClaims parses b clock cs h srv =
           (Inr \<lparr>total = length cs,
                 successful = length (filter (\<lambda>r. \<not> isl r) (fst (post_in_order b clock cs 0 srv))),
                 failed = length (filter isl (fst (post_in_order b clock cs 0 srv))),
                 results_s = ok_items 0 (fst (post_in_order b clock cs 0 srv)),
                 errors_s = failed_items 0 cs (fst (post_in_order b clock cs 0 srv))\<rparr>,
            h\<lparr>loading_h := False, error_h := None\<rparr>,
            snd (post_in_order b clock cs 0 srv))
    \<and> length (fst (post_in_order b clock cs 0 srv)) = length cs
    \<and> length (filter (\<lambda>r. \<not> isl r) (fst (post_in_order b clock cs 0 srv)))
        + length (filter isl (fst (post_in_order b clock cs 0 srv))) = length cs
    \<and> (Item_ok j d \<in> set (ok_items 0 (fst (post_in_order b clock cs 0 srv)))
         \<longleftrightarrow> j < length cs \<and> fst (post_in_order b clock cs 0 srv) ! j = Inr d)
    \<and> (Item_failed j msg c \<in> set (failed_items 0 cs (fst (post_in_order b clock cs 0 srv)))
         \<longleftrightarrow> j < length cs \<and> fst (post_in_order b clock cs 0 srv) ! j = Inl msg \<and> c = cs ! j)
    \<and> (fst (post_in_order b clock cs 0 srv) = [Inr da, Inl why, Inr dc] \<longrightarrow>
          successful (projr (fst (submitBatchClaims parses b clock cs h srv))) = 2
          \<and> failed (projr (fst (submitBatchClaims parses b clock cs h srv))) = 1
          \<and> results_s (projr (fst (submitBatchClaims parses b clock cs h srv)))
              = [Item_ok 0 da, Item_ok 2 dc]
          \<and> errors_s (projr (fst (submitBatchClaims parses b clock cs h srv)))
              = [Item_failed 1 why (cs ! 1)])"
proof -
  let ?rs = "fst (post_in_order b clock cs 0 srv)"
  have len: "length ?rs = length cs"
    by (rule post_in_order_length)
  from assms(2) have none: "validationErrors parses cs = []"
    by (simp add: validationErrors_empty)
  have loop: "submit_each b clock cs 0 srv [] [] =
      (ok_items 0 ?rs, failed_items 0 cs ?rs, snd (post_in_order b clock cs 0 srv))"
    using submit_each_answers [OF assms(2), of b clock 0 srv "[]" "[]"] by simp
  have summary: "submitBatchClaims parses b clock cs h srv =
           (Inr \<lparr>total = length cs,
                 successful = length (filter (\<lambda>r. \<not> isl r) ?rs),
                 failed = length (filter isl ?rs),
                 results_s = ok_items 0 ?rs,
                 errors_s = failed_items 0 cs ?rs\<rparr>,
            h\<lparr>loading_h := False, error_h := None\<rparr>,
            snd (post_in_order b clock cs 0 srv))"
    using assms(1) len
    by (simp add: submitBatchClaims_def api_submitBatchClaims_def none loop ok_items_length
        failed_items_length)
  have split: "length (filter (\<lambda>r. \<not> isl r) ?rs) + length (filter isl ?rs) = length cs"
    using sum_length_filter_compl [of isl ?rs] len by simp
  have ok: "Item_ok j d \<in> set (ok_items 0 ?rs) \<longleftrightarrow> j < length cs \<and> ?rs ! j = Inr d"
    using ok_items_member [of j d 0 ?rs] len by simp
  have bad: "Item_failed j msg c \<in> set (failed_items 0 cs ?rs)
         \<longleftrightarrow> j < length cs \<and> ?rs ! j = Inl msg \<and> c = cs ! j"
    using failed_items_member [of cs ?rs j msg c 0] len by simp
  have three: "successful (projr (fst (submitBatchClaims parses b clock cs h srv))) = 2
          \<and> failed (projr (fst (submitBatchClaims parses b clock cs h srv))) = 1
          \<and> results_s (projr (fst (submitBatchClaims parses b clock cs h srv)))
              = [Item_ok 0 da, Item_ok 2 dc]
          \<and> errors_s (projr (fst (submitBatchClaims parses b clock cs h srv)))
              = [Item_failed 1 why (cs ! 1)]"
    if answers: "?rs = [Inr da, Inl why, Inr dc]"
  proof -
    from answers len obtain c1 c2 c3 where cs: "cs = [c1, c2, c3]"
      by (cases cs; cases "tl cs"; cases "tl (tl cs)") auto
    show ?thesis
      unfolding summary by (simp add: answers) (simp add: cs)
  qed
  from three have particular: "?rs = [Inr da, Inl why, Inr dc] \<longrightarrow>
          successful (projr (fst (submitBatchClaims parses b clock cs h srv))) = 2
          \<and> failed (projr (fst (submitBatchClaims parses b clock cs h srv))) = 1
          \<and> results_s (projr (fst (submitBatchClaims parses b clock cs h srv)))
              = [Item_ok 0 da, Item_ok 2 dc]
          \<and> errors_s (projr (fst (submitBatchClaims parses b clock cs h srv)))
              = [Item_failed 1 why (cs ! 1)]"
    by (rule impI)
  from summary len split ok bad particular show ?thesis
    by (intro conjI)
qed

text \<open>
  The empty batch passes validation, since it has no claim that fails, and the gateway
  refuses it: there is no summary.
\<close>

theorem empty_batch_counterexample:
  "fst (submitBatchClaims any_string claim_service (\<lambda>i. noon) [] idle_hook settled)
   = Inl ''Claims array is required and cannot be empty''"
  by (simp add: submitBatchClaims_def api_submitBatchClaims_def validationErrors_def)

theorem valid_batch_submitted_witness:
  "three_claims \<noteq> []
   \<and> map (\<lambda>c. isValid (validateClaim any_string c)) three_claims = [True, True, True]
   \<and> map isl (fst (post_in_order claim_service (\<lambda>i. noon) three_claims 0 settled))
       = [False, True, False]
   \<and> total (projr (fst (submitBatchClaims any_string claim_service (\<lambda>i. noon) three_claims
                           idle_hook settled))) = 3
   \<and> successful (projr (fst (submitBatchClaims any_string claim_service (\<lambda>i. noon) three_claims
                                idle_hook settled))) = 2
   \<and> failed (projr (fst (submitBatchClaims any_string claim_service (\<lambda>i. noon) three_claims
                            idle_hook settled))) = 1
   \<and> map index (results_s (projr (fst (submitBatchClaims any_string claim_service (\<lambda>i. noon)
                                          three_claims idle_hook settled)))) = [0, 2]
   \<and> map index (errors_s (projr (fst (submitBatchClaims any_string claim_service (\<lambda>i. noon)
                                         three_claims idle_hook settled)))) = [1]
   \<and> length (snd (snd (submitBatchClaims any_string claim_service (\<lambda>i. noon) three_claims
                          idle_hook settled))) = 4"
proof -
  let ?run = "submitBatchClaims any_string claim_service (\<lambda>i. noon) three_claims idle_hook settled"
  let ?rs = "fst (post_in_order claim_service (\<lambda>i. noon) three_claims 0 settled)"
  have some: "three_claims \<noteq> []"
    by (simp add: three_claims_def)
  have each: "map (\<lambda>c. isValid (validateClaim any_string c)) three_claims = [True, True, True]"
    by code_simp
  then have valid: "\<forall>c \<in> set three_claims. isValid (validateClaim any_string c)"
    by (simp add: three_claims_def)
  have flags: "map isl ?rs = [False, True, False]"
    by code_simp
  then obtain da why dc where answers: "?rs = [Inr da, Inl why, Inr dc]"
    by (auto simp: map_eq_Cons_conv isl_def) (metis sum.exhaust_sel)
  have stored: "length (snd (post_in_order claim_service (\<lambda>i. noon) three_claims 0 settled)) = 4"
    by code_simp
  note at = valid_batch_submitted [OF some valid, where b = claim_service
      and clock = "\<lambda>i. noon" and h = idle_hook and srv = settled and da = da and why = why
      and dc = dc]
  from at have whole: "?run =
           (Inr \<lparr>total = length three_claims,
                 successful = length (filter (\<lambda>r. \<not> isl r) ?rs),
                 failed = length (filter isl ?rs),
                 results_s = ok_items 0 ?rs,
                 errors_s = failed_items 0 three_claims ?rs\<rparr>,
            idle_hook\<lparr>loading_h := False, error_h := None\<rparr>,
            snd (post_in_order claim_service (\<lambda>i. noon) three_claims 0 settled))"
    by (rule conjunct1)
  from at answers have particular: "successful (projr (fst ?run)) = 2
      \<and> failed (projr (fst ?run)) = 1
      \<and> results_s (projr (fst ?run)) = [Item_ok 0 da, Item_ok 2 dc]
      \<and> errors_s (projr (fst ?run)) = [Item_failed 1 why (three_claims ! 1)]"
    by blast
  have n: "total (projr (fst ?run)) = 3"
    unfolding whole by (simp add: three_claims_def)
  have left: "length (snd (snd ?run)) = 4"
    unfolding whole using stored by simp
  from some each flags n particular left show ?thesis
    by simp
qed

end
